theory Spec2Isabelle
  imports Main "HOL-Library.AList"
begin

section \<open>CHATHUB: the message store, the presence maps and the socket handlers\<close>

text \<open>
  The development embeds the server side of \<^verbatim>\<open>app.py\<close>: the SQLite helpers
  (\<^verbatim>\<open>persist_message\<close> \<dots> \<^verbatim>\<open>search_room\<close>), the two presence dictionaries and the
  Socket.IO handlers that change them.

  The HTTP routes (registration, login, avatar upload, theme) and the page templates are
  not modelled; the \<^verbatim>\<open>users\<close> table is only read by the handlers.  The block under
  \<^verbatim>\<open>if __name__ == "__main__"\<close> (the welcome message) is not modelled either: its first
  line is indented by one space, the handlers are embedded as they are written.

  Modelling decisions, all of them about what lies outside the Python text:
  \<^item> A column of type TEXT holds text or NULL (\<open>string option\<close>), a column of type
    INTEGER holds an integer or NULL (\<open>int option\<close>); Python's \<^verbatim>\<open>None\<close> is bound as NULL.
    The payload of an event is a JSON object whose fields are typed the same way; a field
    can be absent or be an explicit null, which \<^verbatim>\<open>dict.get\<close> with a default tells apart.
  \<^item> Text is a list of characters, each \<open>char\<close> one code point below 256; its length in
    bytes is that of its UTF-8 encoding.
  \<^item> Binding a parameter can fail: \<^verbatim>\<open>sqlite3\<close> raises \<^verbatim>\<open>OverflowError\<close> for an integer
    outside the signed 64-bit range and \<^verbatim>\<open>DataError\<close> for a text of more than \<open>10\<^sup>9\<close>
    bytes.  The parameters of a statement are bound in order, the first failure is the
    one raised, and the statement is then not run.  A value that was read from a row binds.
  \<^item> A function that raises returns \<open>Inl\<close> of the error and leaves the store as the last
    commit left it; a handler returns the state it reached, the events it had emitted and
    the error it raised, if any.
  \<^item> A table is the list of its rows in rowid order, the order of a table scan.  A row
    of an \<^verbatim>\<open>INTEGER PRIMARY KEY AUTOINCREMENT\<close> table gets a rowid above the largest
    rowid of the table and above the \<^verbatim>\<open>sqlite_sequence\<close> counter, the \<open>_seq\<close> field beside
    each table; when either has reached \<open>2\<^sup>6\<^sup>3 - 1\<close> the insert fails (\<^verbatim>\<open>SQLITE_FULL\<close>,
    raised as \<^verbatim>\<open>OperationalError\<close>).  Other storage failures are not modelled.
  \<^item> \<^verbatim>\<open>WHERE a = ?\<close> is SQL equality: it holds for no row when either side is NULL.
  \<^item> \<^verbatim>\<open>LIMIT n\<close> keeps the first \<open>n\<close> rows and keeps them all when \<open>n\<close> is negative.
  \<^item> \<^verbatim>\<open>time.time()\<close> is an argument of the functions that read the clock.
\<close>

subsection \<open>Errors and parameter binding\<close>

datatype error = OverflowError | DataError | OperationalError

definition int64_ok :: "int \<Rightarrow> bool" where
  "int64_ok i = (- (2 ^ 63) \<le> i \<and> i \<le> 2 ^ 63 - 1)"

definition utf8_length :: "string \<Rightarrow> nat" where
  "utf8_length s = length s + length (filter (\<lambda>c. 128 \<le> (of_char c :: nat)) s)"

definition bindable :: "int option \<Rightarrow> bool" where
  "bindable v = (case v of None \<Rightarrow> True | Some i \<Rightarrow> int64_ok i)"

definition text_ok :: "string option \<Rightarrow> bool" where
  "text_ok v = (case v of None \<Rightarrow> True | Some s \<Rightarrow> utf8_length s \<le> 1000000000)"

datatype param = PText "string option" | PInt "int option"

definition bind_error :: "param \<Rightarrow> error option" where
  "bind_error p =
     (case p of
        PText v \<Rightarrow> if text_ok v then None else Some DataError
      | PInt v \<Rightarrow> if bindable v then None else Some OverflowError)"

fun bind_params :: "param list \<Rightarrow> error option" where
  "bind_params [] = None"
| "bind_params (p # ps) = (case bind_error p of Some e \<Rightarrow> Some e | None \<Rightarrow> bind_params ps)"

subsection \<open>SQL primitives\<close>

definition sql_eq :: "'a option \<Rightarrow> 'a option \<Rightarrow> bool" where
  "sql_eq a b = (case a of None \<Rightarrow> False
                 | Some x \<Rightarrow> (case b of None \<Rightarrow> False | Some y \<Rightarrow> x = y))"

definition sql_limit :: "int \<Rightarrow> 'a list \<Rightarrow> 'a list" where
  "sql_limit n xs = (if n < 0 then xs else take (nat n) xs)"

definition max_rowid :: int where
  "max_rowid = 2 ^ 63 - 1"

text \<open>
  The rowid of a new row of an AUTOINCREMENT table, from the counter and the rowids in
  the table; \<open>None\<close> when the table is full.
\<close>

definition next_rowid :: "int \<Rightarrow> int list \<Rightarrow> int option" where
  "next_rowid seq ids =
     (case ids of
        [] \<Rightarrow> if max_rowid \<le> seq then None else Some (max 1 (seq + 1))
      | x # xs \<Rightarrow>
          if max_rowid \<le> seq \<or> max_rowid \<le> fold max xs x then None
          else Some (max (fold max xs x + 1) (seq + 1)))"

definition ascii_lower :: "char \<Rightarrow> char" where
  "ascii_lower c = (let n = (of_char c :: nat)
                    in if 65 \<le> n \<and> n \<le> 90 then char_of (n + 32) else c)"

text \<open>
  SQLite's \<^verbatim>\<open>like\<close> function without an escape character.  It reads the pattern and the
  text as C strings, up to the first NUL.  In the pattern \<^verbatim>\<open>%\<close> stands for any run of
  characters, \<^verbatim>\<open>_\<close> for exactly one, any other character for itself up to ASCII case.
  A pattern of more than 50000 bytes is refused when the function is called.
\<close>

definition c_string :: "string \<Rightarrow> string" where
  "c_string s = takeWhile (\<lambda>c. c \<noteq> CHR 0x00) s"

fun pattern_compare :: "string \<Rightarrow> string \<Rightarrow> bool" where
  "pattern_compare [] s = (s = [])"
| "pattern_compare (p # ps) [] = (p = CHR ''%'' \<and> pattern_compare ps [])"
| "pattern_compare (p # ps) (c # cs) =
     (if p = CHR ''%'' then pattern_compare ps (c # cs) \<or> pattern_compare (p # ps) cs
      else (p = CHR ''_'' \<or> ascii_lower p = ascii_lower c) \<and> pattern_compare ps cs)"

definition like_match :: "string \<Rightarrow> string \<Rightarrow> bool" where
  "like_match pat s = pattern_compare (c_string pat) (c_string s)"

definition sql_like :: "string option \<Rightarrow> string \<Rightarrow> bool" where
  "sql_like txt pat = (case txt of None \<Rightarrow> False | Some s \<Rightarrow> like_match pat s)"

definition like_too_complex :: "string \<Rightarrow> bool" where
  "like_too_complex pat = (50000 < utf8_length pat)"

subsection \<open>The tables\<close>

record user_row =
  u_password :: "string option"
  u_avatar :: "string option"
  u_theme :: "string option"

record message_row =
  m_id :: int
  m_room :: "string option"
  m_sender :: "string option"
  m_receiver :: "string option"
  m_message :: "string option"
  m_image :: "string option"
  m_reply_to :: "int option"
  m_timestamp :: int

record reaction_row =
  r_id :: int
  r_message_id :: "int option"
  r_username :: "string option"
  r_emoji :: "string option"

record pin_row =
  p_id :: int
  p_message_id :: "int option"
  p_room :: "string option"

record database =
  users :: "string \<rightharpoonup> user_row"
  messages :: "message_row list"
  messages_seq :: int
  reactions :: "reaction_row list"
  reactions_seq :: int
  pins :: "pin_row list"
  pins_seq :: int

definition init_db :: database where
  "init_db = \<lparr>users = Map.empty, messages = [], messages_seq = 0,
              reactions = [], reactions_seq = 0, pins = [], pins_seq = 0\<rparr>"

text \<open>The row of \<^verbatim>\<open>SELECT ... FROM messages WHERE id=?\<close> with \<^verbatim>\<open>fetchone()\<close>, once the id is bound.\<close>

definition message_by_id :: "database \<Rightarrow> int option \<Rightarrow> message_row option" where
  "message_by_id d mid = find (\<lambda>r. sql_eq (Some (m_id r)) mid) (messages d)"

subsection \<open>User helper\<close>

definition get_user :: "database \<Rightarrow> string option \<Rightarrow> error + user_row option" where
  "get_user d username =
     (case bind_params [PText username] of
        Some e \<Rightarrow> Inl e
      | None \<Rightarrow> Inr (case username of None \<Rightarrow> None | Some u \<Rightarrow> users d u))"

subsection \<open>Message helpers\<close>

definition persist_message ::
  "database \<Rightarrow> int \<Rightarrow> string option \<Rightarrow> string option \<Rightarrow> string option \<Rightarrow> string option
     \<Rightarrow> string option \<Rightarrow> int option \<Rightarrow> error + database \<times> message_row option" where
  "persist_message d ts room sender receiver message_text image_dataurl reply_to =
     (case bind_params [PText room, PText sender, PText receiver, PText message_text,
                        PText image_dataurl, PInt reply_to, PInt (Some ts)] of
        Some e \<Rightarrow> Inl e
      | None \<Rightarrow>
          (case next_rowid (messages_seq d) (map m_id (messages d)) of
             None \<Rightarrow> Inl OperationalError
           | Some mid \<Rightarrow>
               (let d' = d\<lparr>messages := messages d @
                              [\<lparr>m_id = mid, m_room = room, m_sender = sender,
                                m_receiver = receiver, m_message = message_text,
                                m_image = image_dataurl, m_reply_to = reply_to,
                                m_timestamp = ts\<rparr>],
                            messages_seq := mid\<rparr>
                in Inr (d', message_by_id d' (Some mid)))))"

text \<open>
  The three listing functions \<^verbatim>\<open>load_room_messages\<close>, \<^verbatim>\<open>load_dm_history\<close> and
  \<^verbatim>\<open>get_pinned\<close> are given as the rows their query returns, for parameters that bind;
  a handler that calls one of them binds its parameters first.  Every call in the source
  leaves the limit at its default of 500.
\<close>

definition load_room_messages :: "database \<Rightarrow> string option \<Rightarrow> int \<Rightarrow> message_row list" where
  "load_room_messages d room limit =
     sql_limit limit
       (sort_key m_id
          (filter (\<lambda>r. sql_eq (m_room r) room \<and> m_receiver r = None) (messages d)))"

definition load_dm_history ::
  "database \<Rightarrow> string option \<Rightarrow> string option \<Rightarrow> int \<Rightarrow> message_row list" where
  "load_dm_history d user other limit =
     sql_limit limit
       (sort_key m_id
          (filter (\<lambda>r. (sql_eq (m_sender r) user \<and> sql_eq (m_receiver r) other) \<or>
                        (sql_eq (m_sender r) other \<and> sql_eq (m_receiver r) user))
             (messages d)))"

definition edit_message ::
  "database \<Rightarrow> int option \<Rightarrow> string option \<Rightarrow> string option
     \<Rightarrow> error + database \<times> message_row option" where
  "edit_message d mid username new_text =
     (case bind_params [PInt mid] of
        Some e \<Rightarrow> Inl e
      | None \<Rightarrow>
          (case message_by_id d mid of
             None \<Rightarrow> Inr (d, None)
           | Some row \<Rightarrow>
               if m_sender row \<noteq> username then Inr (d, None)
               else (case bind_params [PText new_text, PInt mid] of
                       Some e \<Rightarrow> Inl e
                     | None \<Rightarrow>
                         (let d' = d\<lparr>messages :=
                                       map (\<lambda>r. if sql_eq (Some (m_id r)) mid
                                                 then r\<lparr>m_message := new_text\<rparr> else r)
                                           (messages d)\<rparr>
                          in Inr (d', message_by_id d' mid)))))"

definition delete_message ::
  "database \<Rightarrow> int option \<Rightarrow> string option \<Rightarrow> error + database \<times> bool" where
  "delete_message d mid username =
     (case bind_params [PInt mid] of
        Some e \<Rightarrow> Inl e
      | None \<Rightarrow>
          (case message_by_id d mid of
             None \<Rightarrow> Inr (d, False)
           | Some row \<Rightarrow>
               if m_sender row \<noteq> username then Inr (d, False)
               else Inr (d\<lparr>messages := filter (\<lambda>r. \<not> sql_eq (Some (m_id r)) mid) (messages d),
                           reactions := filter (\<lambda>r. \<not> sql_eq (r_message_id r) mid)
                                          (reactions d)\<rparr>,
                         True)))"

definition toggle_reaction ::
  "database \<Rightarrow> int option \<Rightarrow> string option \<Rightarrow> string option \<Rightarrow> error + database \<times> bool" where
  "toggle_reaction d mid username emoji =
     (case bind_params [PInt mid, PText username, PText emoji] of
        Some e \<Rightarrow> Inl e
      | None \<Rightarrow>
          (case find (\<lambda>r. sql_eq (r_message_id r) mid \<and> sql_eq (r_username r) username \<and>
                           sql_eq (r_emoji r) emoji) (reactions d) of
             Some existing \<Rightarrow>
               Inr (d\<lparr>reactions := filter (\<lambda>r. r_id r \<noteq> r_id existing) (reactions d)\<rparr>, False)
           | None \<Rightarrow>
               (case next_rowid (reactions_seq d) (map r_id (reactions d)) of
                  None \<Rightarrow> Inl OperationalError
                | Some rid \<Rightarrow>
                    Inr (d\<lparr>reactions := reactions d @
                                [\<lparr>r_id = rid, r_message_id = mid, r_username = username,
                                  r_emoji = emoji\<rparr>],
                            reactions_seq := rid\<rparr>, True))))"

text \<open>
  The dictionary \<^verbatim>\<open>{emoji: cnt}\<close> of the \<^verbatim>\<open>GROUP BY emoji\<close> query: an emoji is a key
  exactly when some reaction row of the message carries it.
\<close>

definition reactions_summary ::
  "database \<Rightarrow> int option \<Rightarrow> error + (string option \<rightharpoonup> nat)" where
  "reactions_summary d mid =
     (case bind_params [PInt mid] of
        Some e \<Rightarrow> Inl e
      | None \<Rightarrow>
          Inr (\<lambda>e. let n = length (filter (\<lambda>r. sql_eq (r_message_id r) mid \<and> r_emoji r = e)
                                      (reactions d))
                   in if n = 0 then None else Some n))"

definition pin_message ::
  "database \<Rightarrow> int option \<Rightarrow> string option \<Rightarrow> error + database \<times> message_row option" where
  "pin_message d mid room =
     (case bind_params [PInt mid, PText room] of
        Some e \<Rightarrow> Inl e
      | None \<Rightarrow>
          (case next_rowid (pins_seq d) (map p_id (pins d)) of
             None \<Rightarrow> Inl OperationalError
           | Some pid \<Rightarrow>
               (let d' = d\<lparr>pins := pins d @ [\<lparr>p_id = pid, p_message_id = mid, p_room = room\<rparr>],
                            pins_seq := pid\<rparr>
                in Inr (d', message_by_id d' mid))))"

definition get_pinned :: "database \<Rightarrow> string option \<Rightarrow> message_row list" where
  "get_pinned d room =
     sql_limit 50
       (concat (map (\<lambda>p. filter (\<lambda>m. sql_eq (Some (m_id m)) (p_message_id p)) (messages d))
                    (sort_key (\<lambda>p. - p_id p)
                       (filter (\<lambda>p. sql_eq (p_room p) room) (pins d)))))"

definition py_str :: "string option \<Rightarrow> string" where
  "py_str v = (case v of None \<Rightarrow> ''None'' | Some s \<Rightarrow> s)"

text \<open>
  The rows are scanned from the highest id down and \<^verbatim>\<open>like\<close> is called for a row only
  when its room is the one asked for: a pattern that is too long is refused at the first
  such row, and not at all when the room has no row.
\<close>

definition search_room ::
  "database \<Rightarrow> string option \<Rightarrow> string option \<Rightarrow> error + message_row list" where
  "search_room d room q =
     (let qlike = ''%'' @ py_str q @ ''%''
      in case bind_params [PText room, PText (Some qlike)] of
           Some e \<Rightarrow> Inl e
         | None \<Rightarrow>
             if like_too_complex qlike \<and> list_ex (\<lambda>r. sql_eq (m_room r) room) (messages d)
             then Inl OperationalError
             else Inr (sql_limit 200
                         (sort_key (\<lambda>r. - m_id r)
                            (filter (\<lambda>r. sql_eq (m_room r) room \<and>
                                          sql_like (m_message r) qlike)
                               (messages d)))))"

subsection \<open>Inbound event data\<close>

text \<open>
  The payload of an inbound event is a JSON object.  \<^verbatim>\<open>data.get(k)\<close> answers
  \<^verbatim>\<open>None\<close> for an absent key and for an explicit null; \<^verbatim>\<open>data.get(k, default)\<close>
  answers the default for an absent key only.  A JSON integer is a Python integer of any
  size.
\<close>

datatype 'a field = Absent | Given "'a option"

definition data_get :: "'a field \<Rightarrow> 'a option" where
  "data_get f = (case f of Absent \<Rightarrow> None | Given v \<Rightarrow> v)"

definition data_get_or :: "'a field \<Rightarrow> 'a \<Rightarrow> 'a option" where
  "data_get_or f dflt = (case f of Absent \<Rightarrow> Some dflt | Given v \<Rightarrow> v)"

record event_data =
  d_username :: "string field"
  d_room :: "string field"
  d_message :: "string field"
  d_image :: "string field"
  d_reply_to :: "int field"
  d_id :: "int field"
  d_message_id :: "int field"
  d_emoji :: "string field"
  d_to :: "string field"
  d_other :: "string field"
  d_query :: "string field"

definition no_data :: event_data where
  "no_data = \<lparr>d_username = Absent, d_room = Absent, d_message = Absent, d_image = Absent,
              d_reply_to = Absent, d_id = Absent, d_message_id = Absent, d_emoji = Absent,
              d_to = Absent, d_other = Absent, d_query = Absent\<rparr>"

text \<open>Python's truth value of a text-or-\<^verbatim>\<open>None\<close>: false for \<^verbatim>\<open>None\<close> and for the empty text.\<close>

definition truthy :: "string option \<Rightarrow> bool" where
  "truthy v = (case v of None \<Rightarrow> False | Some s \<Rightarrow> s \<noteq> [])"

subsection \<open>Outbound events\<close>

text \<open>
  Every \<^verbatim>\<open>emit\<close> is recorded with its event name, its target and its payload.  An emit
  with \<^verbatim>\<open>room=request.sid\<close> (or a recipient's sid) goes to one connection, one with
  \<^verbatim>\<open>room=room\<close> to the members of a room, one without \<^verbatim>\<open>room\<close> to every connection.
  The room table itself is Flask-SocketIO's and is not part of the state.  The list of
  room names sent as \<^verbatim>\<open>rooms_list\<close> and \<^verbatim>\<open>initial\<close> comes from a
  \<^verbatim>\<open>SELECT DISTINCT ... ORDER BY id\<close> over a column that is not selected; its payload is
  recorded without content.
\<close>

datatype target = ToSid string | ToRoom "string option" | ToAll

datatype payload =
    Rows "message_row list"
  | Row "message_row option"
  | RowWithAvatar message_row "string option"
  | DeletedId "int option"
  | Reactions "int option" "string option \<rightharpoonup> nat"
  | UserList "(string \<times> string option) list"
  | RoomsList
  | InitialData
  | SearchResults "message_row list"
  | Typing "string option"

type_synonym event = "string \<times> target \<times> payload"

subsection \<open>Server state and presence maps\<close>

text \<open>
  \<^verbatim>\<open>user_to_sid\<close> and \<^verbatim>\<open>sid_to_user\<close> are Python dictionaries, which keep their
  keys in insertion order: association lists with \<open>AList.update\<close> (overwrite in place
  or append) and \<open>AList.delete\<close>.
\<close>

record state =
  db :: database
  user_to_sid :: "(string \<times> string) list"
  sid_to_user :: "(string \<times> string) list"

definition init_state :: state where
  "init_state = \<lparr>db = init_db, user_to_sid = [], sid_to_user = []\<rparr>"

text \<open>\<^verbatim>\<open>get_user(u)["avatar"] if get_user(u) else None\<close>\<close>

definition avatar_of :: "database \<Rightarrow> string option \<Rightarrow> error + string option" where
  "avatar_of d username =
     (case get_user d username of
        Inl e \<Rightarrow> Inl e
      | Inr None \<Rightarrow> Inr None
      | Inr (Some r) \<Rightarrow> Inr (u_avatar r))"

text \<open>The list that is sent as \<^verbatim>\<open>user_list\<close>, built user by user in the order of the keys.\<close>

fun user_entries :: "database \<Rightarrow> string list \<Rightarrow> error + (string \<times> string option) list" where
  "user_entries d [] = Inr []"
| "user_entries d (u # us) =
     (case avatar_of d (Some u) of
        Inl e \<Rightarrow> Inl e
      | Inr a \<Rightarrow> (case user_entries d us of
                    Inl e \<Rightarrow> Inl e
                  | Inr rest \<Rightarrow> Inr ((u, a) # rest)))"

definition user_list :: "state \<Rightarrow> error + (string \<times> string option) list" where
  "user_list s = user_entries (db s) (map fst (user_to_sid s))"

text \<open>\<^verbatim>\<open>user_to_sid.get(username)\<close>, the spec's \<^verbatim>\<open>lookup_connection\<close>.\<close>

definition lookup_connection :: "state \<Rightarrow> string \<Rightarrow> string option" where
  "lookup_connection s username = map_of (user_to_sid s) username"

subsection \<open>Socket event handlers\<close>

text \<open>
  A handler answers the state it leaves, the events it emitted, in order, and the
  exception that ended it, if one did.
\<close>

type_synonym outcome = "state \<times> event list \<times> error option"

definition on_fetch_initial :: "state \<Rightarrow> string \<Rightarrow> outcome" where
  "on_fetch_initial s sid = (s, [(''initial'', ToSid sid, InitialData)], None)"

definition on_join_room :: "state \<Rightarrow> string \<Rightarrow> int \<Rightarrow> event_data \<Rightarrow> outcome" where
  "on_join_room s sid now data =
     (let username = data_get (d_username data);
          room = data_get_or (d_room data) ''Lobby''
      in case username of
           None \<Rightarrow> (s, [], None)
         | Some u \<Rightarrow>
             if u = [] then (s, [], None)
             else (let s1 = s\<lparr>user_to_sid := AList.update u sid (user_to_sid s),
                              sid_to_user := AList.update sid u (sid_to_user s)\<rparr>
                   in case bind_params [PText room, PInt (Some 500)] of
                        Some e \<Rightarrow> (s1, [], Some e)
                      | None \<Rightarrow>
                          (let msgs = load_room_messages (db s1) room 500;
                               loaded = (''load_room_messages'', ToSid sid, Rows msgs)
                           in case persist_message (db s1) now room (Some ''System'') None
                                     (Some (u @ '' joined '' @ py_str room)) None None of
                                Inl e \<Rightarrow> (s1, [loaded], Some e)
                              | Inr (d', sys_msg) \<Rightarrow>
                                  (let s2 = s1\<lparr>db := d'\<rparr>;
                                       joined = (''new_message_room'', ToRoom room, Row sys_msg)
                                   in case user_list s2 of
                                        Inl e \<Rightarrow> (s2, [loaded, joined], Some e)
                                      | Inr ul \<Rightarrow>
                                          (s2, [loaded, joined,
                                                (''user_list'', ToAll, UserList ul),
                                                (''rooms_list'', ToAll, RoomsList)], None)))))"

definition on_load_room_messages :: "state \<Rightarrow> string \<Rightarrow> event_data \<Rightarrow> outcome" where
  "on_load_room_messages s sid data =
     (let room = data_get_or (d_room data) ''Lobby''
      in case bind_params [PText room, PInt (Some 500)] of
           Some e \<Rightarrow> (s, [], Some e)
         | None \<Rightarrow>
             (s, [(''load_room_messages'', ToSid sid,
                   Rows (load_room_messages (db s) room 500))], None))"

definition on_send_message :: "state \<Rightarrow> string \<Rightarrow> int \<Rightarrow> event_data \<Rightarrow> outcome" where
  "on_send_message s sid now data =
     (let username = data_get (d_username data);
          room = data_get (d_room data);
          message = data_get_or (d_message data) [];
          image = data_get (d_image data);
          reply_to = data_get (d_reply_to data)
      in if \<not> truthy username \<or> \<not> truthy room then (s, [], None)
         else (case avatar_of (db s) username of
                 Inl e \<Rightarrow> (s, [], Some e)
               | Inr avatar \<Rightarrow>
                   (case persist_message (db s) now room username None message image reply_to of
                      Inl e \<Rightarrow> (s, [], Some e)
                    | Inr (d', None) \<Rightarrow> (s\<lparr>db := d'\<rparr>, [], None)
                    | Inr (d', Some m) \<Rightarrow>
                        (s\<lparr>db := d'\<rparr>,
                         [(''new_message_room'', ToRoom room, RowWithAvatar m avatar),
                          (''message'', ToRoom room, RowWithAvatar m avatar)], None))))"

definition on_edit_message :: "state \<Rightarrow> string \<Rightarrow> event_data \<Rightarrow> outcome" where
  "on_edit_message s sid data =
     (let mid = data_get (d_id data);
          new_text = data_get (d_message data);
          user = map_of (sid_to_user s) sid
      in case edit_message (db s) mid user new_text of
           Inl e \<Rightarrow> (s, [], Some e)
         | Inr (d', None) \<Rightarrow> (s\<lparr>db := d'\<rparr>, [], None)
         | Inr (d', Some m) \<Rightarrow>
             (s\<lparr>db := d'\<rparr>, [(''update_message'', ToAll, Row (Some m))], None))"

definition on_delete_message :: "state \<Rightarrow> string \<Rightarrow> event_data \<Rightarrow> outcome" where
  "on_delete_message s sid data =
     (let mid = data_get (d_id data);
          user = map_of (sid_to_user s) sid
      in case delete_message (db s) mid user of
           Inl e \<Rightarrow> (s, [], Some e)
         | Inr (d', ok) \<Rightarrow>
             if ok then (s\<lparr>db := d'\<rparr>, [(''delete_message'', ToAll, DeletedId mid)], None)
             else (s\<lparr>db := d'\<rparr>, [], None))"

definition on_react :: "state \<Rightarrow> string \<Rightarrow> event_data \<Rightarrow> outcome" where
  "on_react s sid data =
     (let mid = data_get (d_message_id data);
          username = data_get (d_username data);
          emoji = data_get (d_emoji data)
      in case toggle_reaction (db s) mid username emoji of
           Inl e \<Rightarrow> (s, [], Some e)
         | Inr (d', ok) \<Rightarrow>
             (case reactions_summary d' mid of
                Inl e \<Rightarrow> (s\<lparr>db := d'\<rparr>, [], Some e)
              | Inr counts \<Rightarrow>
                  (s\<lparr>db := d'\<rparr>,
                   [(''reactions_update'', ToAll, Reactions mid counts)], None)))"

definition on_request_reactions :: "state \<Rightarrow> string \<Rightarrow> event_data \<Rightarrow> outcome" where
  "on_request_reactions s sid data =
     (let mid = data_get (d_message_id data)
      in case reactions_summary (db s) mid of
           Inl e \<Rightarrow> (s, [], Some e)
         | Inr counts \<Rightarrow>
             (s, [(''reactions_update'', ToSid sid, Reactions mid counts)], None))"

definition on_pin_message :: "state \<Rightarrow> string \<Rightarrow> event_data \<Rightarrow> outcome" where
  "on_pin_message s sid data =
     (let mid = data_get (d_id data);
          room = data_get_or (d_room data) ''Lobby''
      in case pin_message (db s) mid room of
           Inl e \<Rightarrow> (s, [], Some e)
         | Inr (d', None) \<Rightarrow> (s\<lparr>db := d'\<rparr>, [], None)
         | Inr (d', Some m) \<Rightarrow>
             (s\<lparr>db := d'\<rparr>,
              [(''pinned_message'', ToAll, Row (Some m)),
               (''pinned_list'', ToAll, Rows (get_pinned d' room))], None))"

definition on_typing :: "state \<Rightarrow> string \<Rightarrow> event_data \<Rightarrow> outcome" where
  "on_typing s sid data =
     (s, [(''typing'', ToRoom (data_get (d_room data)), Typing (data_get (d_username data)))],
      None)"

definition on_stop_typing :: "state \<Rightarrow> string \<Rightarrow> event_data \<Rightarrow> outcome" where
  "on_stop_typing s sid data =
     (s, [(''stop_typing'', ToRoom (data_get (d_room data)),
           Typing (data_get (d_username data)))], None)"

definition on_send_dm :: "state \<Rightarrow> string \<Rightarrow> int \<Rightarrow> event_data \<Rightarrow> outcome" where
  "on_send_dm s sid now data =
     (let sender = data_get (d_username data);
          to = data_get (d_to data);
          message = data_get_or (d_message data) [];
          image = data_get (d_image data);
          reply_to = data_get (d_reply_to data)
      in if \<not> truthy sender \<or> \<not> truthy to then (s, [], None)
         else (case avatar_of (db s) sender of
                 Inl e \<Rightarrow> (s, [], Some e)
               | Inr avatar \<Rightarrow>
                   (case persist_message (db s) now None sender to message image reply_to of
                      Inl e \<Rightarrow> (s, [], Some e)
                    | Inr (d', None) \<Rightarrow> (s\<lparr>db := d'\<rparr>, [], None)
                    | Inr (d', Some m) \<Rightarrow>
                        (let recipient_sid = (case to of None \<Rightarrow> None
                                              | Some t \<Rightarrow> map_of (user_to_sid s) t)
                         in (s\<lparr>db := d'\<rparr>,
                             (case recipient_sid of
                                None \<Rightarrow> []
                              | Some r \<Rightarrow>
                                  if r = [] then []
                                  else [(''new_message_dm'', ToSid r, RowWithAvatar m avatar)]) @
                             [(''new_message_dm'', ToSid sid, RowWithAvatar m avatar)],
                             None)))))"

definition on_load_dm :: "state \<Rightarrow> string \<Rightarrow> event_data \<Rightarrow> outcome" where
  "on_load_dm s sid data =
     (let user = data_get (d_username data);
          other = data_get (d_other data)
      in case bind_params [PText user, PText other, PText other, PText user,
                           PInt (Some 500)] of
           Some e \<Rightarrow> (s, [], Some e)
         | None \<Rightarrow>
             (s, [(''load_dm_history'', ToSid sid,
                   Rows (load_dm_history (db s) user other 500))], None))"

definition on_search :: "state \<Rightarrow> string \<Rightarrow> event_data \<Rightarrow> outcome" where
  "on_search s sid data =
     (let room = data_get (d_room data);
          q = data_get (d_query data)
      in case search_room (db s) room q of
           Inl e \<Rightarrow> (s, [], Some e)
         | Inr results \<Rightarrow> (s, [(''search_results'', ToSid sid, SearchResults results)], None))"

definition on_get_pinned :: "state \<Rightarrow> string \<Rightarrow> event_data \<Rightarrow> outcome" where
  "on_get_pinned s sid data =
     (let room = data_get_or (d_room data) ''Lobby''
      in case bind_params [PText room] of
           Some e \<Rightarrow> (s, [], Some e)
         | None \<Rightarrow> (s, [(''pinned_list'', ToSid sid, Rows (get_pinned (db s) room))], None))"

definition on_presence :: "state \<Rightarrow> string \<Rightarrow> event_data \<Rightarrow> outcome" where
  "on_presence s sid data = (s, [], None)"

definition on_connect :: "state \<Rightarrow> string \<Rightarrow> outcome" where
  "on_connect s sid = (s, [], None)"

definition on_disconnect :: "state \<Rightarrow> string \<Rightarrow> outcome" where
  "on_disconnect s sid =
     (let user = map_of (sid_to_user s) sid;
          s' = (case user of
                  None \<Rightarrow> s
                | Some u \<Rightarrow>
                    if u = [] then s
                    else s\<lparr>user_to_sid := AList.delete u (user_to_sid s),
                           sid_to_user := AList.delete sid (sid_to_user s)\<rparr>)
      in case user_list s' of
           Inl e \<Rightarrow> (s', [], Some e)
         | Inr ul \<Rightarrow> (s', [(''user_list'', ToAll, UserList ul)], None))"

subsection \<open>Store invariants and sample states\<close>

text \<open>\<^verbatim>\<open>id INTEGER PRIMARY KEY\<close>: no two rows of \<^verbatim>\<open>messages\<close> share an id.\<close>

definition messages_pk :: "database \<Rightarrow> bool" where
  "messages_pk d = distinct (map m_id (messages d))"

text \<open>
  \<^verbatim>\<open>AUTOINCREMENT\<close>: the ids of \<^verbatim>\<open>messages\<close> are rowids that the table assigned, from
  \<open>1\<close> up to the counter, which is itself a rowid.
\<close>

definition rowids_ok :: "database \<Rightarrow> bool" where
  "rowids_ok d = (0 \<le> messages_seq d \<and> messages_seq d \<le> max_rowid \<and>
                  list_all (\<lambda>r. 1 \<le> m_id r \<and> m_id r \<le> messages_seq d) (messages d))"

definition hello_row :: message_row where
  "hello_row = \<lparr>m_id = 1, m_room = Some ''Lobby'', m_sender = Some ''alice'', m_receiver = None,
                 m_message = Some ''Hello'', m_image = None, m_reply_to = None,
                 m_timestamp = 100\<rparr>"

definition psst_row :: message_row where
  "psst_row = \<lparr>m_id = 2, m_room = None, m_sender = Some ''alice'', m_receiver = Some ''bob'',
                m_message = Some ''psst'', m_image = None, m_reply_to = None,
                m_timestamp = 101\<rparr>"

definition sample_db :: database where
  "sample_db =
     \<lparr>users = Map.empty,
      messages = [hello_row, psst_row],
      messages_seq = 2,
      reactions = [\<lparr>r_id = 1, r_message_id = Some 1, r_username = Some ''bob'',
                    r_emoji = Some ''+1''\<rparr>],
      reactions_seq = 1,
      pins = [\<lparr>p_id = 1, p_message_id = Some 1, p_room = Some ''Lobby''\<rparr>],
      pins_seq = 1\<rparr>"

definition sample_state :: state where
  "sample_state = \<lparr>db = sample_db,
                    user_to_sid = [(''alice'', ''c1''), (''bob'', ''c2'')],
                    sid_to_user = [(''c1'', ''alice''), (''c2'', ''bob'')]\<rparr>"

definition alice_join :: event_data where
  "alice_join = no_data\<lparr>d_username := Given (Some ''alice''), d_room := Given (Some ''Lobby'')\<rparr>"

definition react_data :: event_data where
  "react_data = no_data\<lparr>d_message_id := Given (Some 99), d_username := Given (Some ''ann''),
                         d_emoji := Given (Some ''+1'')\<rparr>"

text \<open>The rows that the query of \<^verbatim>\<open>load_room_messages\<close> selects: the stored messages of a room.\<close>

definition room_rows :: "database \<Rightarrow> string option \<Rightarrow> message_row list" where
  "room_rows d room =
     filter (\<lambda>r. sql_eq (m_room r) room \<and> m_receiver r = None) (messages d)"

text \<open>The rows that the query of \<^verbatim>\<open>load_dm_history\<close> selects: a conversation of two users.\<close>

definition dm_rows :: "database \<Rightarrow> string option \<Rightarrow> string option \<Rightarrow> message_row list" where
  "dm_rows d user other =
     filter (\<lambda>r. (sql_eq (m_sender r) user \<and> sql_eq (m_receiver r) other) \<or>
                  (sql_eq (m_sender r) other \<and> sql_eq (m_receiver r) user))
       (messages d)"

text \<open>The rows that the query of \<^verbatim>\<open>search_room\<close> selects, for the pattern \<^verbatim>\<open>%q%\<close>.\<close>

definition like_rows :: "database \<Rightarrow> string option \<Rightarrow> string option \<Rightarrow> message_row list" where
  "like_rows d room q =
     filter (\<lambda>r. sql_eq (m_room r) room \<and> sql_like (m_message r) (''%'' @ py_str q @ ''%''))
       (messages d)"

text \<open>The row that \<^verbatim>\<open>persist_message\<close> inserts under the id \<open>mid\<close>.\<close>

definition inserted_row ::
  "int \<Rightarrow> int \<Rightarrow> string option \<Rightarrow> string option \<Rightarrow> string option \<Rightarrow> string option
     \<Rightarrow> string option \<Rightarrow> int option \<Rightarrow> message_row" where
  "inserted_row mid ts room sender receiver message_text image_dataurl reply_to =
     \<lparr>m_id = mid, m_room = room, m_sender = sender, m_receiver = receiver,
      m_message = message_text, m_image = image_dataurl, m_reply_to = reply_to,
      m_timestamp = ts\<rparr>"

text \<open>A store whose only content is \<open>n\<close> messages of alice in the Lobby, ids \<open>1\<close> to \<open>n\<close>.\<close>

definition lobby_row :: "nat \<Rightarrow> message_row" where
  "lobby_row i = \<lparr>m_id = int i + 1, m_room = Some ''Lobby'', m_sender = Some ''alice'',
                   m_receiver = None, m_message = Some ''hi'', m_image = None,
                   m_reply_to = None, m_timestamp = 100\<rparr>"

definition lobby_db :: "nat \<Rightarrow> database" where
  "lobby_db n = init_db\<lparr>messages := map lobby_row [0..<n], messages_seq := int n\<rparr>"

text \<open>A store whose only content is \<open>n\<close> direct messages of alice to bob, ids \<open>1\<close> to \<open>n\<close>.\<close>

definition dm_row :: "nat \<Rightarrow> message_row" where
  "dm_row i = \<lparr>m_id = int i + 1, m_room = None, m_sender = Some ''alice'',
                m_receiver = Some ''bob'', m_message = Some ''hi'', m_image = None,
                m_reply_to = None, m_timestamp = 100\<rparr>"

definition dm_db :: "nat \<Rightarrow> database" where
  "dm_db n = init_db\<lparr>messages := map dm_row [0..<n], messages_seq := int n\<rparr>"

text \<open>A sequence of \<^verbatim>\<open>send_message\<close> events of one connection, handled one after the other.\<close>

fun send_room_calls :: "state \<Rightarrow> string \<Rightarrow> (int \<times> event_data) list \<Rightarrow> state" where
  "send_room_calls s sid [] = s"
| "send_room_calls s sid ((now, data) # rest) =
     send_room_calls (fst (on_send_message s sid now data)) sid rest"

text \<open>The exceptions that the handler raised during such a sequence, one entry per event.\<close>

fun send_room_errors :: "state \<Rightarrow> string \<Rightarrow> (int \<times> event_data) list \<Rightarrow> error option list" where
  "send_room_errors s sid [] = []"
| "send_room_errors s sid ((now, data) # rest) =
     snd (snd (on_send_message s sid now data))
       # send_room_errors (fst (on_send_message s sid now data)) sid rest"

text \<open>A \<^verbatim>\<open>send_message\<close> event whose fields all bind.\<close>

definition send_data_ok :: "event_data \<Rightarrow> bool" where
  "send_data_ok data =
     (text_ok (data_get (d_username data)) \<and> text_ok (data_get (d_room data)) \<and>
      text_ok (data_get_or (d_message data) []) \<and> text_ok (data_get (d_image data)) \<and>
      bindable (data_get (d_reply_to data)))"

definition lobby_state :: "nat \<Rightarrow> state" where
  "lobby_state n = \<lparr>db = lobby_db n, user_to_sid = [], sid_to_user = []\<rparr>"

definition dm_state :: "nat \<Rightarrow> state" where
  "dm_state n = \<lparr>db = dm_db n, user_to_sid = [], sid_to_user = []\<rparr>"

definition lobby_data :: "string \<Rightarrow> event_data" where
  "lobby_data body = no_data\<lparr>d_username := Given (Some ''alice''),
                              d_room := Given (Some ''Lobby''),
                              d_message := Given (Some body)\<rparr>"

definition dm_data :: event_data where
  "dm_data = no_data\<lparr>d_username := Given (Some ''alice''), d_to := Given (Some ''bob''),
                      d_message := Given (Some ''hey'')\<rparr>"

text \<open>
  A run of store statements, with the ids that \<^verbatim>\<open>persist_message\<close> assigned on the way,
  in order, and the store it ends in; a statement that raises changes nothing.
\<close>

datatype statement =
    Persist int "string option" "string option" "string option" "string option"
      "string option" "int option"
  | Edit "int option" "string option" "string option"
  | Delete "int option" "string option"
  | Toggle "int option" "string option" "string option"
  | Pin "int option" "string option"

fun run_statement :: "database \<Rightarrow> statement \<Rightarrow> database \<times> int list" where
  "run_statement d (Persist ts room sender receiver message_text image_dataurl reply_to) =
     (case persist_message d ts room sender receiver message_text image_dataurl reply_to of
        Inl e \<Rightarrow> (d, [])
      | Inr (d', None) \<Rightarrow> (d', [])
      | Inr (d', Some row) \<Rightarrow> (d', [m_id row]))"
| "run_statement d (Edit mid username new_text) =
     (case edit_message d mid username new_text of Inl e \<Rightarrow> (d, []) | Inr (d', r) \<Rightarrow> (d', []))"
| "run_statement d (Delete mid username) =
     (case delete_message d mid username of Inl e \<Rightarrow> (d, []) | Inr (d', r) \<Rightarrow> (d', []))"
| "run_statement d (Toggle mid username emoji) =
     (case toggle_reaction d mid username emoji of Inl e \<Rightarrow> (d, []) | Inr (d', r) \<Rightarrow> (d', []))"
| "run_statement d (Pin mid room) =
     (case pin_message d mid room of Inl e \<Rightarrow> (d, []) | Inr (d', r) \<Rightarrow> (d', []))"

fun assigned_ids :: "database \<Rightarrow> statement list \<Rightarrow> int list" where
  "assigned_ids d [] = []"
| "assigned_ids d (st # sts) =
     snd (run_statement d st) @ assigned_ids (fst (run_statement d st)) sts"

fun run_statements :: "database \<Rightarrow> statement list \<Rightarrow> database" where
  "run_statements d [] = d"
| "run_statements d (st # sts) = run_statements (fst (run_statement d st)) sts"

text \<open>The statements that made the sample store, from the empty one.\<close>

definition sample_history :: "statement list" where
  "sample_history =
     [Persist 100 (Some ''Lobby'') (Some ''alice'') None (Some ''Hello'') None None,
      Persist 101 None (Some ''alice'') (Some ''bob'') (Some ''psst'') None None,
      Toggle (Some 1) (Some ''bob'') (Some ''+1''),
      Pin (Some 1) (Some ''Lobby'')]"

subsection \<open>The specification's search\<close>

text \<open>
  The specification's reading of \<^verbatim>\<open>search\<close>, in its words: the messages of the room whose
  body contains the query as a substring, letters compared without regard to (ASCII) case,
  most recent first, at most 200; a message without a room (a direct message) is never
  among them.
\<close>

fun ci_prefix :: "string \<Rightarrow> string \<Rightarrow> bool" where
  "ci_prefix [] s = True"
| "ci_prefix (a # q) [] = False"
| "ci_prefix (a # q) (c # cs) = (ascii_lower a = ascii_lower c \<and> ci_prefix q cs)"

fun spec_contains_ci :: "string \<Rightarrow> string \<Rightarrow> bool" where
  "spec_contains_ci q [] = (q = [])"
| "spec_contains_ci q (c # cs) = (ci_prefix q (c # cs) \<or> spec_contains_ci q cs)"

definition spec_search :: "database \<Rightarrow> string \<Rightarrow> string \<Rightarrow> message_row list" where
  "spec_search d room q =
     take 200
       (sort_key (\<lambda>r. - m_id r)
          (filter (\<lambda>r. m_room r = Some room \<and>
                        (case m_message r of None \<Rightarrow> False | Some b \<Rightarrow> spec_contains_ci q b))
             (messages d)))"

subsection \<open>Room and receiver of a row\<close>

text \<open>Exactly one of \<^verbatim>\<open>room\<close> and \<^verbatim>\<open>receiver\<close> is set (not NULL).\<close>

definition exclusive :: "message_row \<Rightarrow> bool" where
  "exclusive r = ((m_room r = None) \<noteq> (m_receiver r = None))"

definition store_exclusive :: "database \<Rightarrow> bool" where
  "store_exclusive d = list_all exclusive (messages d)"

definition null_room_join :: event_data where
  "null_room_join = no_data\<lparr>d_username := Given (Some ''alice''), d_room := Given None\<rparr>"

section \<open>Properties\<close>

subsection \<open>Binding parameters\<close>

lemma bind_params_PInt [simp]:
  "bind_params (PInt v # ps) = (if bindable v then bind_params ps else Some OverflowError)"
  by (simp add: bind_error_def)

lemma bind_params_PText [simp]:
  "bind_params (PText v # ps) = (if text_ok v then bind_params ps else Some DataError)"
  by (simp add: bind_error_def)

declare bind_params.simps(2) [simp del]

lemma bindable_simps [simp]: "bindable None" "bindable (Some i) = int64_ok i"
  by (simp_all add: bindable_def)

lemma text_ok_None [simp]: "text_ok None"
  by (simp add: text_ok_def)

lemma utf8_length_le: "utf8_length s \<le> 2 * length s"
  using length_filter_le [of "\<lambda>c. 128 \<le> (of_char c :: nat)" s] by (simp add: utf8_length_def)

lemma text_ok_short: "length s \<le> 1000 \<Longrightarrow> text_ok (Some s)"
  using utf8_length_le [of s] by (simp add: text_ok_def)

lemma int64_ok_small: "0 \<le> i \<Longrightarrow> i \<le> 1000000 \<Longrightarrow> int64_ok i"
  by (simp add: int64_ok_def)

lemma int64_ok_500 [simp]: "int64_ok 500"
  by (simp add: int64_ok_def)

subsection \<open>Row identifiers\<close>

lemma fold_max_ge_init: "(s::int) \<le> fold max ids s"
  by (induction ids arbitrary: s) (auto intro: order_trans [OF max.cobounded2])

lemma fold_max_ge_elem: "x \<in> set ids \<Longrightarrow> (x::int) \<le> fold max ids s"
proof (induction ids arbitrary: s)
  case Nil
  then show ?case by simp
next
  case (Cons a ids)
  show ?case
  proof (cases "x = a")
    case True
    have "a \<le> max a s" by simp
    also have "\<dots> \<le> fold max ids (max a s)" by (rule fold_max_ge_init)
    finally show ?thesis using True by simp
  next
    case False
    with Cons show ?thesis by simp
  qed
qed

lemma fold_max_le: "\<forall>x \<in> set ids. x \<le> b \<Longrightarrow> s \<le> b \<Longrightarrow> fold max ids s \<le> (b::int)"
  by (induction ids arbitrary: s) auto

lemma largest_rowid_ge: "y \<in> set (x # xs) \<Longrightarrow> (y::int) \<le> fold max xs x"
  using fold_max_ge_elem [of y xs x] fold_max_ge_init [of x xs] by auto

lemma next_rowid_Some:
  assumes "next_rowid seq ids = Some k"
  shows "seq < k" and "k \<le> max_rowid" and "\<forall>x \<in> set ids. x < k"
proof -
  show "seq < k"
    using assms by (auto simp: next_rowid_def split: list.splits if_splits)
  show "k \<le> max_rowid"
    using assms by (auto simp: next_rowid_def max_rowid_def split: list.splits if_splits)
  show "\<forall>x \<in> set ids. x < k"
  proof (cases ids)
    case Nil
    then show ?thesis by simp
  next
    case (Cons a as)
    have "\<forall>x \<in> set (a # as). x \<le> fold max as a"
      using largest_rowid_ge by blast
    moreover have "fold max as a < k"
      using assms Cons by (auto simp: next_rowid_def split: if_splits)
    ultimately show ?thesis
      using Cons by fastforce
  qed
qed

lemma next_rowid_fresh: "next_rowid seq ids = Some k \<Longrightarrow> k \<notin> set ids"
  using next_rowid_Some(3) [of seq ids k] by auto

lemma next_rowid_counter:
  assumes "0 \<le> seq" and "seq < max_rowid" and "\<forall>x \<in> set ids. x \<le> seq"
  shows "next_rowid seq ids = Some (seq + 1)"
proof (cases ids)
  case Nil
  then show ?thesis
    using assms by (simp add: next_rowid_def)
next
  case (Cons a as)
  have "fold max as a \<le> seq"
    using assms(3) Cons by (intro fold_max_le) auto
  then show ?thesis
    using assms Cons by (simp add: next_rowid_def)
qed

lemma next_rowid_init [simp]: "next_rowid 0 [] = Some 1"
  by (simp add: next_rowid_def max_rowid_def)

subsection \<open>SQL equality and limits\<close>

lemma sql_eq_Some [simp]:
  "sql_eq a (Some k) = (a = Some k)" "sql_eq (Some k) b = (b = Some k)"
  by (auto simp: sql_eq_def split: option.splits)

lemma sql_eq_None [simp]: "sql_eq a None = False" "sql_eq None b = False"
  by (auto simp: sql_eq_def split: option.splits)

lemma set_sql_limit: "set (sql_limit n xs) \<subseteq> set xs"
  by (auto simp: sql_limit_def dest: in_set_takeD)

lemma sql_limit_unlimited [simp]: "sql_limit (- 1) xs = xs"
  by (simp add: sql_limit_def)

lemma sorted_wrt_sql_limit: "sorted_wrt R xs \<Longrightarrow> sorted_wrt R (sql_limit n xs)"
proof -
  assume "sorted_wrt R xs"
  then have "sorted_wrt R (take (nat n) xs @ drop (nat n) xs)" by simp
  then have "sorted_wrt R (take (nat n) xs)"
    unfolding sorted_wrt_append by blast
  then show ?thesis
    using \<open>sorted_wrt R xs\<close> by (simp add: sql_limit_def)
qed

lemma map_sql_limit: "map f (sql_limit n xs) = sql_limit n (map f xs)"
  by (simp add: sql_limit_def take_map)

lemma sql_limit_keeps_last:
  "limit < 0 \<or> int (length xs) < limit \<Longrightarrow> sql_limit limit (xs @ [y]) = xs @ [y]"
  by (auto simp: sql_limit_def)

lemma sql_limit_drops_last:
  "0 \<le> limit \<Longrightarrow> limit \<le> int (length xs) \<Longrightarrow> sql_limit limit (xs @ [y]) = sql_limit limit xs"
  by (auto simp: sql_limit_def)

subsection \<open>Looking a message up by its id\<close>

lemma message_by_id_None [simp]: "message_by_id d None = None"
  by (simp add: message_by_id_def find_None_iff)

lemma message_by_id_absent:
  "(message_by_id d mid = None) = (\<forall>r \<in> set (messages d). Some (m_id r) \<noteq> mid)"
  by (auto simp: message_by_id_def find_None_iff)

lemma find_distinct_key:
  "distinct (map f xs) \<Longrightarrow> x \<in> set xs \<Longrightarrow> find (\<lambda>r. f r = f x) xs = Some x"
  by (induction xs) (auto simp: image_iff)

lemma find_append_fresh:
  "find P xs = None \<Longrightarrow> P y \<Longrightarrow> find P (xs @ [y]) = Some y"
  by (induction xs) (auto split: if_splits)

lemma message_by_id_present:
  "messages_pk d \<Longrightarrow> M \<in> set (messages d) \<Longrightarrow> message_by_id d (Some (m_id M)) = Some M"
  using find_distinct_key [of m_id "messages d" M]
  by (simp add: message_by_id_def messages_pk_def eq_commute)

lemma pk_same_id:
  "messages_pk d \<Longrightarrow> M \<in> set (messages d) \<Longrightarrow> r \<in> set (messages d) \<Longrightarrow> m_id r = m_id M \<Longrightarrow> r = M"
  by (auto simp: messages_pk_def distinct_map dest: inj_onD)

lemma rowids_ok_stored:
  "rowids_ok d \<Longrightarrow> M \<in> set (messages d) \<Longrightarrow> int64_ok (m_id M)"
  by (auto simp: rowids_ok_def list_all_iff int64_ok_def max_rowid_def)

lemma sample_state_pk: "messages_pk (db sample_state)"
  by (simp add: messages_pk_def sample_state_def sample_db_def hello_row_def psst_row_def)

lemma sample_state_rowids: "rowids_ok (db sample_state)"
  by (simp add: rowids_ok_def sample_state_def sample_db_def hello_row_def psst_row_def
      max_rowid_def)

lemma hello_row_stored: "hello_row \<in> set (messages (db sample_state))"
  by (simp add: sample_state_def sample_db_def)

subsection \<open>Presence\<close>

lemma user_entries_empty_users:
  "users d = Map.empty \<Longrightarrow> \<forall>u \<in> set us. text_ok (Some u)
     \<Longrightarrow> user_entries d us = Inr (map (\<lambda>u. (u, None)) us)"
  by (induction us) (simp_all add: avatar_of_def get_user_def)

lemma on_join_room_presence:
  assumes "data_get (d_username dat) = Some u" and "u \<noteq> []"
  shows "user_to_sid (fst (on_join_room s sid now dat)) = AList.update u sid (user_to_sid s)"
    and "sid_to_user (fst (on_join_room s sid now dat)) = AList.update sid u (sid_to_user s)"
  using assms
  by (auto simp: on_join_room_def Let_def split: option.splits sum.splits prod.splits)

lemma on_disconnect_presence:
  "user_to_sid (fst (on_disconnect s sid))
     = (case map_of (sid_to_user s) sid of
          None \<Rightarrow> user_to_sid s
        | Some u \<Rightarrow> if u = [] then user_to_sid s else AList.delete u (user_to_sid s))"
  by (auto simp: on_disconnect_def Let_def split: option.splits sum.splits)

lemma rejoin_last_connection_wins:
  assumes "u \<noteq> []" and "d_username dat = Given (Some u)" and "d_username dat' = Given (Some u)"
  shows "lookup_connection
           (fst (on_join_room (fst (on_join_room s c1 t1 dat)) c2 t2 dat')) u = Some c2"
  using assms
  by (simp add: on_join_room_presence lookup_connection_def data_get_def update_conv')

lemma stale_disconnect_forgets_user:
  assumes "u \<noteq> []" and "d_username dat = Given (Some u)" and "d_username dat' = Given (Some u)"
  shows "lookup_connection
           (fst (on_disconnect (fst (on_join_room (fst (on_join_room s c1 t1 dat)) c2 t2 dat'))
                   c1)) u = None"
  using assms
  by (simp add: on_disconnect_presence on_join_room_presence lookup_connection_def data_get_def
      update_conv' delete_conv')

text \<open>
  Claim C1.  Presence is last-connection-wins, and the disconnect of a superseded
  connection leaves the newer mapping alone.  The first half holds: after alice joins
  on \<open>c1\<close> and then on \<open>c2\<close>, her connection is \<open>c2\<close>.  The second half fails:
  \<^verbatim>\<open>on_disconnect\<close> finds alice under the stale \<open>c1\<close> in \<^verbatim>\<open>sid_to_user\<close> and pops
  her entry of \<^verbatim>\<open>user_to_sid\<close> without comparing it with \<open>c1\<close>, so she has no
  connection any more while \<^verbatim>\<open>sid_to_user\<close> still maps \<open>c2\<close> to her.
\<close>

theorem presence_stale_disconnect:
  "lookup_connection
     (fst (on_join_room (fst (on_join_room init_state ''c1'' 100 alice_join)) ''c2'' 101
             alice_join)) ''alice'' = Some ''c2''
   \<and> lookup_connection
       (fst (on_disconnect
               (fst (on_join_room (fst (on_join_room init_state ''c1'' 100 alice_join)) ''c2''
                       101 alice_join)) ''c1'')) ''alice'' = None
   \<and> map_of (sid_to_user
       (fst (on_disconnect
               (fst (on_join_room (fst (on_join_room init_state ''c1'' 100 alice_join)) ''c2''
                       101 alice_join)) ''c1''))) ''c2'' = Some ''alice''"
proof -
  have u: "data_get (d_username alice_join) = Some ''alice''" "''alice'' \<noteq> []"
    by (simp_all add: alice_join_def no_data_def data_get_def)
  let ?s2 = "fst (on_join_room (fst (on_join_room init_state ''c1'' 100 alice_join)) ''c2'' 101
                    alice_join)"
  have p2: "user_to_sid ?s2 = [(''alice'', ''c2'')]"
           "sid_to_user ?s2 = [(''c1'', ''alice''), (''c2'', ''alice'')]"
    by (simp_all add: on_join_room_presence [OF u] init_state_def)
  have p3: "user_to_sid (fst (on_disconnect ?s2 ''c1'')) = []"
    by (simp add: on_disconnect_presence p2 AList.delete_eq)
  have p4: "sid_to_user (fst (on_disconnect ?s2 ''c1'')) = [(''c2'', ''alice'')]"
    by (auto simp: on_disconnect_def Let_def p2 AList.delete_eq split: sum.splits)
  show ?thesis
    by (simp add: lookup_connection_def p2 p3 p4)
qed

subsection \<open>Authorization\<close>

lemma state_db_same [simp]: "s\<lparr>db := db s\<rparr> = s"
  by simp

text \<open>
  Claim C3.  For a stored message \<open>M\<close>, its id a 64-bit integer as every rowid is, and a
  requester \<open>U\<close> other than its sender, \<^verbatim>\<open>edit_message\<close> answers \<^verbatim>\<open>None\<close> and
  \<^verbatim>\<open>delete_message\<close> answers \<^verbatim>\<open>False\<close>, neither raises; the store (the message, its
  reactions, everything else) is the same afterwards, and the handlers, which take the
  requester from \<^verbatim>\<open>sid_to_user\<close>, leave the whole state as it is, emit nothing and
  raise nothing.
\<close>

theorem unauthorized_edit_delete_noop:
  assumes pk: "messages_pk (db s)" and stored: "M \<in> set (messages (db s))"
    and rowid: "int64_ok (m_id M)" and other: "U \<noteq> m_sender M"
  shows "edit_message (db s) (Some (m_id M)) U body = Inr (db s, None)
       \<and> delete_message (db s) (Some (m_id M)) U = Inr (db s, False)
       \<and> (map_of (sid_to_user s) sid = U \<and> data_get (d_id dat) = Some (m_id M)
            \<longrightarrow> on_edit_message s sid dat = (s, [], None)
              \<and> on_delete_message s sid dat = (s, [], None))"
  using message_by_id_present [OF pk stored] rowid other
  by (auto simp: edit_message_def delete_message_def on_edit_message_def on_delete_message_def)

theorem unauthorized_edit_delete_noop_witness:
  "messages_pk (db sample_state) \<and> hello_row \<in> set (messages (db sample_state))
   \<and> int64_ok (m_id hello_row) \<and> Some ''bob'' \<noteq> m_sender hello_row
   \<and> edit_message (db sample_state) (Some 1) (Some ''bob'') (Some ''hacked'')
       = Inr (db sample_state, None)
   \<and> delete_message (db sample_state) (Some 1) (Some ''bob'') = Inr (db sample_state, False)
   \<and> map_of (sid_to_user sample_state) ''c2'' = Some ''bob''
   \<and> data_get (d_id (no_data\<lparr>d_id := Given (Some 1)\<rparr>)) = Some 1
   \<and> on_edit_message sample_state ''c2'' (no_data\<lparr>d_id := Given (Some 1)\<rparr>)
       = (sample_state, [], None)
   \<and> on_delete_message sample_state ''c2'' (no_data\<lparr>d_id := Given (Some 1)\<rparr>)
       = (sample_state, [], None)"
proof -
  have other: "Some ''bob'' \<noteq> m_sender hello_row"
    by (simp add: hello_row_def)
  have rowid: "int64_ok (m_id hello_row)"
    by (simp add: hello_row_def int64_ok_def)
  have who: "map_of (sid_to_user sample_state) ''c2'' = Some ''bob''"
    by (simp add: sample_state_def)
  have what: "data_get (d_id (no_data\<lparr>d_id := Given (Some 1)\<rparr>)) = Some (m_id hello_row)"
    by (simp add: data_get_def hello_row_def)
  show ?thesis
    using unauthorized_edit_delete_noop [OF sample_state_pk hello_row_stored rowid other,
        of "Some ''hacked''" "''c2''" "no_data\<lparr>d_id := Given (Some 1)\<rparr>"]
      sample_state_pk hello_row_stored rowid other who what
    by (simp add: hello_row_def)
qed

subsection \<open>Reactions\<close>

lemma filter_fresh_id:
  "\<forall>r \<in> set xs. r_id r \<noteq> k \<Longrightarrow> filter (\<lambda>r. r_id r \<noteq> k) xs = xs"
  by (induction xs) auto

lemma toggle_reaction_overflow:
  "\<not> bindable mid \<Longrightarrow> toggle_reaction d mid u e = Inl OverflowError"
  by (simp add: toggle_reaction_def)

lemma toggle_reaction_returns:
  assumes "bindable mid" "text_ok u" "text_ok e"
    and "next_rowid (reactions_seq d) (map r_id (reactions d)) \<noteq> None"
  shows "\<exists>d' ok. toggle_reaction d mid u e = Inr (d', ok)"
proof (cases "find (\<lambda>r. sql_eq (r_message_id r) mid \<and> sql_eq (r_username r) u \<and>
                      sql_eq (r_emoji r) e) (reactions d)")
  case None
  then show ?thesis
    using assms by (auto simp: toggle_reaction_def)
next
  case (Some x)
  then show ?thesis
    using assms by (auto simp: toggle_reaction_def)
qed

lemma toggle_reaction_frame:
  "toggle_reaction d m u e = Inr (d', ok) \<Longrightarrow> messages d' = messages d \<and> pins d' = pins d"
  by (auto simp: toggle_reaction_def split: option.splits if_splits)

lemma toggle_reaction_changes_table:
  assumes "toggle_reaction d mid u e = Inr (d', ok)"
  shows "length (reactions d') \<noteq> length (reactions d)"
proof (cases "find (\<lambda>r. sql_eq (r_message_id r) mid \<and> sql_eq (r_username r) u \<and>
                      sql_eq (r_emoji r) e) (reactions d)")
  case None
  then show ?thesis
    using assms by (auto simp: toggle_reaction_def split: option.splits if_splits)
next
  case (Some x)
  then have "x \<in> set (reactions d)"
    by (auto simp: find_Some_iff)
  then have "length (filter (\<lambda>r. r_id r \<noteq> r_id x) (reactions d)) < length (reactions d)"
    by (intro length_filter_less [of x]) auto
  with Some show ?thesis
    using assms by (auto simp: toggle_reaction_def split: option.splits if_splits)
qed




subsection \<open>Operations on a message id that is not in the store\<close>




subsection \<open>Deleting one's own message\<close>

lemma set_get_pinned: "set (get_pinned d room) \<subseteq> set (messages d)"
  using set_sql_limit by (fastforce simp: get_pinned_def)

text \<open>
  Claim C6.  For a stored message \<open>M\<close>, its id a 64-bit integer as every rowid is,
  \<^verbatim>\<open>delete_message\<close> called with the id and the sender of \<open>M\<close> does not raise and answers
  \<^verbatim>\<open>True\<close>; afterwards \<open>M\<close> is the one message that is gone, no reaction on its id is
  left, so its summary is empty, the pins are untouched, and \<^verbatim>\<open>get_pinned\<close> of any room
  returns no row with the id of \<open>M\<close>: the join drops the dangling pin.
\<close>

theorem authorized_delete_complete:
  assumes pk: "messages_pk d" and stored: "M \<in> set (messages d)"
    and range: "int64_ok (m_id M)"
  shows "\<exists>d'. delete_message d (Some (m_id M)) (m_sender M) = Inr (d', True)
       \<and> set (messages d') = set (messages d) - {M}
       \<and> m_id M \<notin> set (map m_id (messages d'))
       \<and> reactions d' = filter (\<lambda>r. r_message_id r \<noteq> Some (m_id M)) (reactions d)
       \<and> reactions_summary d' (Some (m_id M)) = Inr Map.empty
       \<and> pins d' = pins d
       \<and> m_id M \<notin> set (map m_id (get_pinned d' R))"
proof -
  define d' where
    "d' = d\<lparr>messages := filter (\<lambda>r. m_id r \<noteq> m_id M) (messages d),
            reactions := filter (\<lambda>r. r_message_id r \<noteq> Some (m_id M)) (reactions d)\<rparr>"
  have del: "delete_message d (Some (m_id M)) (m_sender M) = Inr (d', True)"
    using message_by_id_present [OF pk stored] range
    by (simp add: delete_message_def d'_def)
  have msgs: "messages d' = filter (\<lambda>r. m_id r \<noteq> m_id M) (messages d)"
    and reacts: "reactions d' = filter (\<lambda>r. r_message_id r \<noteq> Some (m_id M)) (reactions d)"
    and pins: "pins d' = pins d"
    by (simp_all add: d'_def)
  have gone: "set (messages d') = set (messages d) - {M}"
    using pk_same_id [OF pk stored] by (auto simp: msgs)
  have noid: "m_id M \<notin> set (map m_id (messages d'))"
    by (auto simp: msgs)
  have summary: "reactions_summary d' (Some (m_id M)) = Inr Map.empty"
    using range by (auto simp: reactions_summary_def reacts fun_eq_iff)
  have pinned: "m_id M \<notin> set (map m_id (get_pinned d' R))"
    using noid set_get_pinned [of d' R] by auto
  show ?thesis
    using del gone noid reacts summary pins pinned by blast
qed

theorem authorized_delete_complete_witness:
  "messages_pk sample_db \<and> hello_row \<in> set (messages sample_db)
   \<and> int64_ok (m_id hello_row)
   \<and> delete_message sample_db (Some (m_id hello_row)) (m_sender hello_row)
       = Inr (sample_db\<lparr>messages := [psst_row], reactions := []\<rparr>, True)
   \<and> reactions sample_db \<noteq> []
   \<and> get_pinned sample_db (Some ''Lobby'') = [hello_row]
   \<and> get_pinned (sample_db\<lparr>messages := [psst_row], reactions := []\<rparr>) (Some ''Lobby'') = []"
proof -
  have pk: "messages_pk sample_db"
    using sample_state_pk by (simp add: sample_state_def)
  have range: "int64_ok (m_id hello_row)"
    by (simp add: hello_row_def int64_ok_def)
  have stored: "hello_row \<in> set (messages sample_db)"
    by (simp add: sample_db_def)
  have before: "get_pinned sample_db (Some ''Lobby'') = [hello_row]"
    by (simp add: get_pinned_def sample_db_def sql_limit_def hello_row_def psst_row_def)
  have del: "delete_message sample_db (Some (m_id hello_row)) (m_sender hello_row)
               = Inr (sample_db\<lparr>messages := [psst_row], reactions := []\<rparr>, True)"
    by (simp add: delete_message_def message_by_id_def sample_db_def hello_row_def psst_row_def
        int64_ok_def)
  have after: "get_pinned (sample_db\<lparr>messages := [psst_row], reactions := []\<rparr>)
        (Some ''Lobby'') = []"
    by (simp add: get_pinned_def sample_db_def sql_limit_def psst_row_def)
  show ?thesis
    using authorized_delete_complete [OF pk stored range, of "Some ''Lobby''"]
      pk stored range before del after
    by (simp add: sample_db_def)
qed

lemma distinct_map_sort_key:
  "distinct (map f (sort_key f xs)) = distinct (map f xs)"
  by (induction xs) (auto simp: distinct_insort_key)

lemma strict_sorted_sort_key:
  "distinct (map f xs) \<Longrightarrow> sorted_wrt (<) (map f (sort_key f xs))"
  by (simp add: strict_sorted_iff distinct_map_sort_key)

lemma sorted_wrt_take_drop:
  assumes "sorted_wrt (<) (map f xs)" "x \<in> set (take n xs)" "y \<in> set (drop n xs)"
  shows "f x < f y"
proof -
  have "sorted_wrt (<) (map f (take n xs @ drop n xs))"
    using assms(1) by simp
  then show ?thesis
    using assms(2,3) unfolding map_append sorted_wrt_append by auto
qed

lemma messages_pk_room_rows: "messages_pk d \<Longrightarrow> distinct (map m_id (room_rows d room))"
  by (simp add: messages_pk_def room_rows_def distinct_map_filter)

lemma load_room_messages_rows:
  "load_room_messages d room limit = sql_limit limit (sort_key m_id (room_rows d room))"
  by (simp add: load_room_messages_def room_rows_def)

subsection \<open>The cap of the room history\<close>

text \<open>
  Claim C10.  When a room holds more messages than the (non-negative) limit,
  \<^verbatim>\<open>load_room_messages\<close> returns exactly \<open>limit\<close> rows of the room in strictly
  ascending id order, every returned row is older (has a smaller id) than every row of
  the room that is left out, and the newest row of the room is among those left out.
\<close>

theorem room_history_cap_keeps_oldest:
  assumes pk: "messages_pk d" and lim: "0 \<le> limit"
    and more: "limit < int (length (room_rows d room))"
  shows "length (load_room_messages d room limit) = nat limit
       \<and> sorted_wrt (<) (map m_id (load_room_messages d room limit))
       \<and> set (load_room_messages d room limit) \<subseteq> set (room_rows d room)
       \<and> (\<forall>x \<in> set (load_room_messages d room limit).
            \<forall>y \<in> set (room_rows d room) - set (load_room_messages d room limit).
              m_id x < m_id y)
       \<and> (\<exists>y \<in> set (room_rows d room) - set (load_room_messages d room limit).
            \<forall>x \<in> set (room_rows d room). m_id x \<le> m_id y)"
proof -
  let ?L = "sort_key m_id (room_rows d room)"
  let ?n = "nat limit"
  have res: "load_room_messages d room limit = take ?n ?L"
    using lim by (simp add: load_room_messages_rows sql_limit_def)
  have len: "?n < length ?L"
    using lim more by simp
  have strict: "sorted_wrt (<) (map m_id ?L)"
    using pk by (simp add: strict_sorted_sort_key messages_pk_room_rows)
  have dist: "distinct ?L"
    using pk messages_pk_room_rows [of d room] by (auto simp: distinct_map)
  have split: "set (room_rows d room) - set (take ?n ?L) = set (drop ?n ?L)"
  proof -
    have "set (take ?n ?L) \<inter> set (drop ?n ?L) = {}"
      using dist by (metis append_take_drop_id distinct_append)
    moreover have "set (take ?n ?L) \<union> set (drop ?n ?L) = set (room_rows d room)"
      by (metis append_take_drop_id set_append set_sort)
    ultimately show ?thesis by auto
  qed
  have c1: "length (take ?n ?L) = ?n"
    using len by simp
  have c2: "sorted_wrt (<) (map m_id (take ?n ?L))"
    using strict by (metis sorted_wrt_append append_take_drop_id map_append)
  have c3: "set (take ?n ?L) \<subseteq> set (room_rows d room)"
    using set_take_subset [of ?n ?L] by simp
  have c4: "\<forall>x \<in> set (take ?n ?L). \<forall>y \<in> set (room_rows d room) - set (take ?n ?L). m_id x < m_id y"
    unfolding split using sorted_wrt_take_drop [OF strict] by blast
  have ne: "?L \<noteq> []"
    using len by (metis length_greater_0_conv less_nat_zero_code not_gr_zero)
  have lastin: "last ?L \<in> set (drop ?n ?L)"
    using len ne by (metis drop_eq_Nil last_drop last_in_set not_le)
  have maxi: "\<forall>x \<in> set (room_rows d room). m_id x \<le> m_id (last ?L)"
  proof
    fix x assume "x \<in> set (room_rows d room)"
    then have "x \<in> set ?L" by simp
    then obtain i where i: "i < length ?L" "?L ! i = x"
      by (metis in_set_conv_nth)
    have "sorted (map m_id ?L)" by simp
    then have "map m_id ?L ! i \<le> map m_id ?L ! (length ?L - 1)"
      using i(1) by (intro sorted_nth_mono) auto
    then show "m_id x \<le> m_id (last ?L)"
      using i ne by (simp add: last_conv_nth)
  qed
  have c5: "\<exists>y \<in> set (room_rows d room) - set (take ?n ?L). \<forall>x \<in> set (room_rows d room). m_id x \<le> m_id y"
    unfolding split using lastin maxi by blast
  show ?thesis
    unfolding res using c1 c2 c3 c4 c5 by blast
qed


lemma upt_3: "[0..<3] = [0, 1, 2]"
  by (simp add: upt_rec)

theorem room_history_cap_keeps_oldest_witness:
  "messages_pk (lobby_db 3) \<and> (2::int) < int (length (room_rows (lobby_db 3) (Some ''Lobby'')))
   \<and> load_room_messages (lobby_db 3) (Some ''Lobby'') 2 = [lobby_row 0, lobby_row 1]
   \<and> lobby_row 2 \<in> set (room_rows (lobby_db 3) (Some ''Lobby''))
   \<and> lobby_row 2 \<notin> set (load_room_messages (lobby_db 3) (Some ''Lobby'') 2)
   \<and> m_id (lobby_row 1) < m_id (lobby_row 2)"
proof -
  have pk: "messages_pk (lobby_db 3)"
    by (simp add: messages_pk_def lobby_db_def upt_3 lobby_row_def)
  have rows: "room_rows (lobby_db 3) (Some ''Lobby'') = [lobby_row 0, lobby_row 1, lobby_row 2]"
    by (simp add: room_rows_def lobby_db_def upt_3 lobby_row_def)
  have more: "(2::int) < int (length (room_rows (lobby_db 3) (Some ''Lobby'')))"
    by (simp add: rows)
  note th = room_history_cap_keeps_oldest [OF pk _ more]
  have res: "load_room_messages (lobby_db 3) (Some ''Lobby'') 2 = [lobby_row 0, lobby_row 1]"
    by (simp add: load_room_messages_rows rows sql_limit_def lobby_row_def)
  show ?thesis
    using th pk more res rows by (simp add: lobby_row_def)
qed

subsection \<open>Appending the newest row\<close>

lemma insort_key_snoc:
  "f x \<le> f y \<Longrightarrow> insort_key f x (zs @ [y]) = insort_key f x zs @ [y]"
  by (induction zs) auto

lemma sort_key_snoc:
  "\<forall>x \<in> set xs. f x \<le> f y \<Longrightarrow> sort_key f (xs @ [y]) = sort_key f xs @ [y]"
  by (induction xs) (auto simp: insort_key_snoc)

lemma sort_key_append_sorted:
  "sorted (map f ys) \<Longrightarrow> \<forall>x \<in> set xs. \<forall>y \<in> set ys. f x \<le> f y
     \<Longrightarrow> sort_key f (xs @ ys) = sort_key f xs @ ys"
proof (induction ys rule: rev_induct)
  case Nil
  then show ?case by simp
next
  case (snoc y ys)
  have below: "\<forall>x \<in> set (xs @ ys). f x \<le> f y"
    using snoc.prems by (auto simp: sorted_append)
  have "sort_key f (xs @ ys @ [y]) = sort_key f (xs @ ys) @ [y]"
    using sort_key_snoc [OF below] by simp
  also have "sort_key f (xs @ ys) = sort_key f xs @ ys"
    using snoc by (auto simp: sorted_append)
  finally show ?case by simp
qed

lemma persist_message_eq:
  assumes binds: "text_ok room" "text_ok sender" "text_ok receiver" "text_ok body" "text_ok img"
      "bindable reply_to" "int64_ok ts"
    and rowid: "next_rowid (messages_seq d) (map m_id (messages d)) = Some k"
  shows "persist_message d ts room sender receiver body img reply_to =
     Inr (d\<lparr>messages := messages d @ [inserted_row k ts room sender receiver body img reply_to],
            messages_seq := k\<rparr>,
          Some (inserted_row k ts room sender receiver body img reply_to))"
proof -
  have "find (\<lambda>r. m_id r = k) (messages d) = None"
    using next_rowid_fresh [OF rowid] by (auto simp: find_None_iff image_iff)
  then show ?thesis
    using binds rowid
    by (simp add: persist_message_def inserted_row_def message_by_id_def Let_def
        find_append_fresh)
qed

lemma persist_message_raises:
  "\<not> bindable reply_to \<Longrightarrow> text_ok room \<Longrightarrow> text_ok sender \<Longrightarrow> text_ok receiver
     \<Longrightarrow> text_ok body \<Longrightarrow> text_ok img
     \<Longrightarrow> persist_message d ts room sender receiver body img reply_to = Inl OverflowError"
  by (simp add: persist_message_def)

lemma inserted_row_newest:
  "next_rowid (messages_seq d) (map m_id (messages d)) = Some k \<Longrightarrow> x \<in> set (messages d)
     \<Longrightarrow> m_id x < m_id (inserted_row k ts room sender receiver body img reply_to)"
  using next_rowid_Some(3) [of "messages_seq d" "map m_id (messages d)" k]
  by (simp add: inserted_row_def)

lemma inserted_row_fields [simp]:
  "m_id (inserted_row k ts room sender receiver body img reply_to) = k"
  "m_room (inserted_row k ts room sender receiver body img reply_to) = room"
  "m_sender (inserted_row k ts room sender receiver body img reply_to) = sender"
  "m_receiver (inserted_row k ts room sender receiver body img reply_to) = receiver"
  "m_message (inserted_row k ts room sender receiver body img reply_to) = body"
  "m_image (inserted_row k ts room sender receiver body img reply_to) = img"
  "m_reply_to (inserted_row k ts room sender receiver body img reply_to) = reply_to"
  "m_timestamp (inserted_row k ts room sender receiver body img reply_to) = ts"
  by (simp_all add: inserted_row_def)

lemma avatar_of_returns: "text_ok username \<Longrightarrow> \<exists>avatar. avatar_of d username = Inr avatar"
  by (simp add: avatar_of_def get_user_def split: option.splits)

lemma load_dm_history_rows:
  "load_dm_history d user other limit = sql_limit limit (sort_key m_id (dm_rows d user other))"
  by (simp add: load_dm_history_def dm_rows_def)

lemma dm_rows_sym: "dm_rows d user other = dm_rows d other user"
  by (auto simp: dm_rows_def intro: filter_cong)

lemma set_dm_rows: "set (dm_rows d user other) \<subseteq> set (messages d)"
  by (auto simp: dm_rows_def)

lemma set_room_rows: "set (room_rows d room) \<subseteq> set (messages d)"
  by (auto simp: room_rows_def)

lemma on_send_dm_eq:
  fixes s :: state and now :: int and data :: event_data
  assumes "data_get (d_username data) = Some A" "A \<noteq> []"
    and "data_get (d_to data) = Some B" "B \<noteq> []"
    and "text_ok (Some A)" "text_ok (Some B)" "text_ok (data_get_or (d_message data) [])"
      "text_ok (data_get (d_image data))" "bindable (data_get (d_reply_to data))" "int64_ok now"
    and "next_rowid (messages_seq (db s)) (map m_id (messages (db s))) = Some k"
    and av: "avatar_of (db s) (Some A) = Inr avatar"
  defines "row \<equiv> inserted_row k now None (Some A) (Some B)
                   (data_get_or (d_message data) []) (data_get (d_image data))
                   (data_get (d_reply_to data))"
  shows "on_send_dm s sid now data =
           (s\<lparr>db := (db s)\<lparr>messages := messages (db s) @ [row], messages_seq := k\<rparr>\<rparr>,
            (case lookup_connection s B of
               None \<Rightarrow> []
             | Some r \<Rightarrow> if r = [] then []
                         else [(''new_message_dm'', ToSid r, RowWithAvatar row avatar)]) @
            [(''new_message_dm'', ToSid sid, RowWithAvatar row avatar)], None)"
proof -
  have "persist_message (db s) now None (Some A) (Some B) (data_get_or (d_message data) [])
          (data_get (d_image data)) (data_get (d_reply_to data))
        = Inr ((db s)\<lparr>messages := messages (db s) @ [row], messages_seq := k\<rparr>, Some row)"
    unfolding row_def using assms(5-11) by (intro persist_message_eq) simp_all
  then show ?thesis
    using assms(1-4) av
    by (simp add: on_send_dm_def truthy_def Let_def lookup_connection_def)
qed

lemma dm_listing_after_insert:
  assumes msgs: "messages d' = messages d @ [row]"
    and newest: "\<forall>x \<in> set (messages d). m_id x < m_id row"
    and fields: "m_sender row = Some A" "m_receiver row = Some B"
  shows "load_dm_history d' (Some A) (Some B) limit
           = sql_limit limit (load_dm_history d (Some A) (Some B) (- 1) @ [row])"
proof -
  have rows: "dm_rows d' (Some A) (Some B) = dm_rows d (Some A) (Some B) @ [row]"
    using fields by (simp add: dm_rows_def msgs)
  have "\<forall>x \<in> set (dm_rows d (Some A) (Some B)). m_id x \<le> m_id row"
    using newest set_dm_rows [of d "Some A" "Some B"] by (auto simp: less_imp_le)
  then show ?thesis
    by (simp add: load_dm_history_rows rows sort_key_snoc)
qed

lemma messages_pk_dm_rows: "messages_pk d \<Longrightarrow> distinct (map m_id (dm_rows d user other))"
  by (simp add: messages_pk_def dm_rows_def distinct_map_filter)

lemma messages_pk_append:
  "messages_pk d \<Longrightarrow> messages d' = messages d @ [row]
     \<Longrightarrow> \<forall>x \<in> set (messages d). m_id x < m_id row \<Longrightarrow> messages_pk d'"
  by (auto simp: messages_pk_def)

lemma set_load_room_messages: "set (load_room_messages d room lim) \<subseteq> set (room_rows d room)"
  using set_sql_limit [of lim "sort_key m_id (room_rows d room)"]
  by (simp add: load_room_messages_rows)

lemma set_load_dm_history:
  "set (load_dm_history d user other lim) \<subseteq> set (dm_rows d user other)"
  using set_sql_limit [of lim "sort_key m_id (dm_rows d user other)"]
  by (simp add: load_dm_history_rows)

subsection \<open>Direct messages\<close>


lemma upt_2: "[0..<2] = [0, 1]"
  by (simp add: upt_rec)


lemma dm_db_rows:
  "dm_rows (dm_db n) (Some ''alice'') (Some ''bob'') = messages (dm_db n)"
  by (simp add: dm_rows_def dm_db_def dm_row_def)

lemma dm_db_next_rowid:
  "next_rowid (messages_seq (dm_db 500)) (map m_id (messages (dm_db 500))) = Some 501"
  using next_rowid_counter [of 500 "map m_id (messages (dm_db 500))"]
  by (auto simp: dm_db_def dm_row_def max_rowid_def)


subsection \<open>The primary key and the rowids are kept by every statement\<close>

lemma persist_message_Inr:
  assumes "persist_message d ts room sender receiver body img reply_to = Inr (d', r)"
  shows "\<exists>k. next_rowid (messages_seq d) (map m_id (messages d)) = Some k
           \<and> d' = d\<lparr>messages := messages d @
                        [inserted_row k ts room sender receiver body img reply_to],
                     messages_seq := k\<rparr>
           \<and> r = Some (inserted_row k ts room sender receiver body img reply_to)"
proof -
  obtain k where k: "next_rowid (messages_seq d) (map m_id (messages d)) = Some k"
    and binds: "bind_params [PText room, PText sender, PText receiver, PText body, PText img,
                   PInt reply_to, PInt (Some ts)] = None"
    using assms by (auto simp: persist_message_def split: option.splits)
  have "text_ok room" "text_ok sender" "text_ok receiver" "text_ok body" "text_ok img"
    "bindable reply_to" "int64_ok ts"
    using binds by (simp_all split: if_splits)
  from persist_message_eq [OF this k] assms k show ?thesis
    by simp
qed

lemma edit_message_Inr:
  assumes "edit_message d mid username new_text = Inr (d', r)"
  shows "messages_seq d' = messages_seq d \<and> map m_id (messages d') = map m_id (messages d)
       \<and> map m_room (messages d') = map m_room (messages d)
       \<and> map m_receiver (messages d') = map m_receiver (messages d)"
proof -
  have same: "m_id \<circ> (\<lambda>r. if sql_eq (Some (m_id r)) mid then r\<lparr>m_message := new_text\<rparr> else r)
                = m_id"
    "m_room \<circ> (\<lambda>r. if sql_eq (Some (m_id r)) mid then r\<lparr>m_message := new_text\<rparr> else r)
                = m_room"
    "m_receiver \<circ> (\<lambda>r. if sql_eq (Some (m_id r)) mid then r\<lparr>m_message := new_text\<rparr> else r)
                = m_receiver"
    by (auto simp: fun_eq_iff)
  show ?thesis
    using assms unfolding edit_message_def
    by (auto simp: Let_def same simp del: sql_eq_Some split: option.splits if_splits)
qed

lemma delete_message_Inr:
  assumes "delete_message d mid username = Inr (d', r)"
  shows "messages_seq d' = messages_seq d
       \<and> (\<exists>P. messages d' = filter P (messages d))"
proof -
  have cases: "d' = d \<or> messages d' = filter (\<lambda>r. \<not> sql_eq (Some (m_id r)) mid) (messages d)"
    and seq: "messages_seq d' = messages_seq d"
    using assms by (auto simp: delete_message_def split: option.splits if_splits)
  from cases have "\<exists>P. messages d' = filter P (messages d)"
  proof
    assume "d' = d"
    then have "messages d' = filter (\<lambda>r. True) (messages d)" by simp
    then show ?thesis by blast
  next
    assume "messages d' = filter (\<lambda>r. \<not> sql_eq (Some (m_id r)) mid) (messages d)"
    then show ?thesis by blast
  qed
  with seq show ?thesis by simp
qed

lemma toggle_reaction_Inr:
  "toggle_reaction d mid username emoji = Inr (d', r)
     \<Longrightarrow> messages d' = messages d \<and> messages_seq d' = messages_seq d"
  by (auto simp: toggle_reaction_def split: option.splits if_splits)

lemma pin_message_Inr:
  "pin_message d mid room = Inr (d', r)
     \<Longrightarrow> messages d' = messages d \<and> messages_seq d' = messages_seq d"
  by (auto simp: pin_message_def Let_def split: option.splits if_splits)

lemma rowids_ok_append:
  assumes ok: "rowids_ok d"
    and rowid: "next_rowid (messages_seq d) (map m_id (messages d)) = Some k"
  shows "k = messages_seq d + 1"
    and "rowids_ok (d\<lparr>messages := messages d @ [row\<lparr>m_id := k\<rparr>], messages_seq := k\<rparr>)"
proof -
  have below: "\<forall>x \<in> set (map m_id (messages d)). x \<le> messages_seq d"
    using ok by (auto simp: rowids_ok_def list_all_iff)
  have "messages_seq d < max_rowid"
    using ok rowid next_rowid_Some(1,2) [OF rowid] by simp
  then have "next_rowid (messages_seq d) (map m_id (messages d)) = Some (messages_seq d + 1)"
    using ok below by (intro next_rowid_counter) (simp_all add: rowids_ok_def)
  then show k: "k = messages_seq d + 1"
    using rowid by simp
  show "rowids_ok (d\<lparr>messages := messages d @ [row\<lparr>m_id := k\<rparr>], messages_seq := k\<rparr>)"
    using ok next_rowid_Some(2) [OF rowid] unfolding k
    by (auto simp: rowids_ok_def list_all_iff)
qed

lemma persist_message_invariants:
  assumes pk: "messages_pk d" and ok: "rowids_ok d"
    and run: "persist_message d ts room sender receiver body img reply_to = Inr (d', r)"
  shows "messages_pk d'" and "rowids_ok d'" and "messages_seq d' = messages_seq d + 1"
    and "\<exists>row. r = Some row \<and> m_id row = messages_seq d + 1"
proof -
  let ?row = "\<lambda>k. inserted_row k ts room sender receiver body img reply_to"
  obtain k where k: "next_rowid (messages_seq d) (map m_id (messages d)) = Some k"
    and d': "d' = d\<lparr>messages := messages d @ [?row k], messages_seq := k\<rparr>"
    and r: "r = Some (?row k)"
    using persist_message_Inr [OF run] by blast
  have row: "(?row k)\<lparr>m_id := k\<rparr> = ?row k"
    by (simp add: inserted_row_def)
  show "rowids_ok d'"
    using rowids_ok_append(2) [OF ok k, of "?row k"] unfolding row d' .
  have newest: "\<forall>x \<in> set (messages d). m_id x < m_id (?row k)"
    using inserted_row_newest [OF k] by blast
  have msgs: "messages d' = messages d @ [?row k]"
    by (simp add: d')
  show "messages_pk d'"
    using messages_pk_append [OF pk msgs newest] .
  show seq: "messages_seq d' = messages_seq d + 1"
    using rowids_ok_append(1) [OF ok k] by (simp add: d')
  show "\<exists>row. r = Some row \<and> m_id row = messages_seq d + 1"
    using r rowids_ok_append(1) [OF ok k] by simp
qed

lemma edit_message_invariants:
  assumes pk: "messages_pk d" and ok: "rowids_ok d"
    and run: "edit_message d mid username new_text = Inr (d', r)"
  shows "messages_pk d'" and "rowids_ok d'" and "messages_seq d' = messages_seq d"
proof -
  have same: "messages_seq d' = messages_seq d" "map m_id (messages d') = map m_id (messages d)"
    using edit_message_Inr [OF run] by simp_all
  have "list_all (\<lambda>i. 1 \<le> i \<and> i \<le> messages_seq d) (map m_id (messages d))"
    using ok by (simp add: rowids_ok_def list_all_iff)
  then have "list_all (\<lambda>i. 1 \<le> i \<and> i \<le> messages_seq d) (map m_id (messages d'))"
    by (simp only: same(2))
  then show "rowids_ok d'"
    using ok same(1) by (simp add: rowids_ok_def list_all_iff)
  show "messages_pk d'"
    using pk by (simp only: messages_pk_def same(2))
  show "messages_seq d' = messages_seq d"
    by (rule same(1))
qed

lemma delete_message_invariants:
  assumes pk: "messages_pk d" and ok: "rowids_ok d"
    and run: "delete_message d mid username = Inr (d', r)"
  shows "messages_pk d'" and "rowids_ok d'" and "messages_seq d' = messages_seq d"
proof -
  obtain P where same: "messages_seq d' = messages_seq d" "messages d' = filter P (messages d)"
    using delete_message_Inr [OF run] by blast
  show "rowids_ok d'"
    using ok same by (simp add: rowids_ok_def list_all_iff)
  show "messages_pk d'"
    using pk same(2) by (simp add: messages_pk_def distinct_map_filter)
  show "messages_seq d' = messages_seq d"
    by (rule same(1))
qed

lemma same_messages_invariants:
  assumes pk: "messages_pk d" and ok: "rowids_ok d"
    and same: "messages d' = messages d \<and> messages_seq d' = messages_seq d"
  shows "messages_pk d'" and "rowids_ok d'" and "messages_seq d' = messages_seq d"
  using pk ok same by (simp_all add: rowids_ok_def messages_pk_def)

lemma run_statement_invariants:
  assumes pk: "messages_pk d" and ok: "rowids_ok d"
  shows "messages_pk (fst (run_statement d st))"
    and "rowids_ok (fst (run_statement d st))"
    and "messages_seq d \<le> messages_seq (fst (run_statement d st))"
    and "\<forall>i \<in> set (snd (run_statement d st)).
           messages_seq d < i \<and> i \<le> messages_seq (fst (run_statement d st))"
proof -
  have "messages_pk (fst (run_statement d st)) \<and> rowids_ok (fst (run_statement d st))
      \<and> messages_seq d \<le> messages_seq (fst (run_statement d st))
      \<and> (\<forall>i \<in> set (snd (run_statement d st)).
           messages_seq d < i \<and> i \<le> messages_seq (fst (run_statement d st)))"
  proof (cases st)
    case (Persist ts room sender receiver body img reply_to)
    show ?thesis
    proof (cases "persist_message d ts room sender receiver body img reply_to")
      case (Inl e)
      then show ?thesis
        using pk ok Persist by simp
    next
      case (Inr p)
      obtain d' r where p: "p = (d', r)" by (cases p)
      note inv = persist_message_invariants [OF pk ok Inr [unfolded p]]
      obtain row where row: "r = Some row" "m_id row = messages_seq d + 1"
        using inv(4) by blast
      have "run_statement d st = (d', [m_id row])"
        by (simp add: Persist Inr p row(1))
      then show ?thesis
        using inv(1,2,3) row(2) by simp
    qed
  next
    case (Edit mid username new_text)
    show ?thesis
    proof (cases "edit_message d mid username new_text")
      case (Inl e)
      then show ?thesis using pk ok Edit by simp
    next
      case (Inr p)
      obtain d' r where p: "p = (d', r)" by (cases p)
      note inv = edit_message_invariants [OF pk ok Inr [unfolded p]]
      have "run_statement d st = (d', [])"
        by (simp add: Edit Inr p)
      then show ?thesis
        using inv by simp
    qed
  next
    case (Delete mid username)
    show ?thesis
    proof (cases "delete_message d mid username")
      case (Inl e)
      then show ?thesis using pk ok Delete by simp
    next
      case (Inr p)
      obtain d' r where p: "p = (d', r)" by (cases p)
      note inv = delete_message_invariants [OF pk ok Inr [unfolded p]]
      have "run_statement d st = (d', [])"
        by (simp add: Delete Inr p)
      then show ?thesis
        using inv by simp
    qed
  next
    case (Toggle mid username emoji)
    show ?thesis
    proof (cases "toggle_reaction d mid username emoji")
      case (Inl e)
      then show ?thesis using pk ok Toggle by simp
    next
      case (Inr p)
      obtain d' r where p: "p = (d', r)" by (cases p)
      note inv = same_messages_invariants [OF pk ok toggle_reaction_Inr [OF Inr [unfolded p]]]
      have "run_statement d st = (d', [])"
        by (simp add: Toggle Inr p)
      then show ?thesis
        using inv by simp
    qed
  next
    case (Pin mid room)
    show ?thesis
    proof (cases "pin_message d mid room")
      case (Inl e)
      then show ?thesis using pk ok Pin by simp
    next
      case (Inr p)
      obtain d' r where p: "p = (d', r)" by (cases p)
      note inv = same_messages_invariants [OF pk ok pin_message_Inr [OF Inr [unfolded p]]]
      have "run_statement d st = (d', [])"
        by (simp add: Pin Inr p)
      then show ?thesis
        using inv by simp
    qed
  qed
  then show "messages_pk (fst (run_statement d st))"
    and "rowids_ok (fst (run_statement d st))"
    and "messages_seq d \<le> messages_seq (fst (run_statement d st))"
    and "\<forall>i \<in> set (snd (run_statement d st)).
           messages_seq d < i \<and> i \<le> messages_seq (fst (run_statement d st))"
    by blast+
qed

text \<open>
  The ids that a run of statements assigns are strictly increasing, all above the counter
  the run started from and none above the counter it ends with: the counter of a store
  bounds every id that was ever assigned, also the ids of messages deleted since.
\<close>

lemma assigned_ids_bounded:
  assumes "messages_pk d" and "rowids_ok d"
  shows "messages_pk (run_statements d sts) \<and> rowids_ok (run_statements d sts)
       \<and> messages_seq d \<le> messages_seq (run_statements d sts)
       \<and> sorted_wrt (<) (assigned_ids d sts)
       \<and> (\<forall>i \<in> set (assigned_ids d sts).
            messages_seq d < i \<and> i \<le> messages_seq (run_statements d sts))"
  using assms
proof (induction sts arbitrary: d)
  case Nil
  then show ?case by simp
next
  case (Cons st sts)
  let ?d1 = "fst (run_statement d st)"
  note step = run_statement_invariants [OF Cons.prems, of st]
  note rest = Cons.IH [OF step(1,2)]
  have one: "length (snd (run_statement d st)) \<le> 1"
    by (cases st) (auto split: sum.splits option.splits prod.splits)
  then have "sorted_wrt (<) (snd (run_statement d st))"
    by (cases "snd (run_statement d st)") auto
  moreover have "\<forall>i \<in> set (snd (run_statement d st)). \<forall>j \<in> set (assigned_ids ?d1 sts). i < j"
    using step(4) rest by fastforce
  ultimately have "sorted_wrt (<) (assigned_ids d (st # sts))"
    using rest by (simp add: sorted_wrt_append)
  moreover have "\<forall>i \<in> set (assigned_ids d (st # sts)).
            messages_seq d < i \<and> i \<le> messages_seq (run_statements d (st # sts))"
    using step(3,4) rest by fastforce
  moreover have "messages_seq d \<le> messages_seq (run_statements d (st # sts))"
    using step(3) rest by simp
  ultimately show ?case
    using rest by simp
qed

lemma fresh_store_invariants:
  "messages d = [] \<Longrightarrow> messages_seq d = 0 \<Longrightarrow> messages_pk d \<and> rowids_ok d"
  by (simp add: messages_pk_def rowids_ok_def max_rowid_def)

lemma sample_db_history: "run_statements init_db sample_history = sample_db"
  by (simp add: sample_history_def persist_message_def toggle_reaction_def pin_message_def
      message_by_id_def init_db_def sample_db_def hello_row_def psst_row_def text_ok_short
      int64_ok_def next_rowid_def max_rowid_def Let_def)

lemma sample_assigned_ids: "assigned_ids init_db sample_history = [1, 2]"
  by (simp add: sample_history_def persist_message_def toggle_reaction_def pin_message_def
      message_by_id_def init_db_def text_ok_short
      int64_ok_def next_rowid_def max_rowid_def Let_def)

subsection \<open>Room messages in send order\<close>

lemma on_send_message_eq:
  fixes s :: state and now :: int and data :: event_data
  assumes "truthy (data_get (d_username data))" "truthy (data_get (d_room data))"
    and "send_data_ok data" "int64_ok now"
    and "next_rowid (messages_seq (db s)) (map m_id (messages (db s))) = Some k"
  defines "row \<equiv> inserted_row k now (data_get (d_room data)) (data_get (d_username data))
                   None (data_get_or (d_message data) []) (data_get (d_image data))
                   (data_get (d_reply_to data))"
  shows "\<exists>avatar. on_send_message s sid now data =
           (s\<lparr>db := (db s)\<lparr>messages := messages (db s) @ [row], messages_seq := k\<rparr>\<rparr>,
            [(''new_message_room'', ToRoom (data_get (d_room data)), RowWithAvatar row avatar),
             (''message'', ToRoom (data_get (d_room data)), RowWithAvatar row avatar)], None)"
proof -
  obtain avatar where av: "avatar_of (db s) (data_get (d_username data)) = Inr avatar"
    using avatar_of_returns [of "data_get (d_username data)"] assms(3)
    by (auto simp: send_data_ok_def)
  have "persist_message (db s) now (data_get (d_room data)) (data_get (d_username data)) None
          (data_get_or (d_message data) []) (data_get (d_image data)) (data_get (d_reply_to data))
        = Inr ((db s)\<lparr>messages := messages (db s) @ [row], messages_seq := k\<rparr>, Some row)"
    unfolding row_def using assms(3-5) by (intro persist_message_eq) (simp_all add: send_data_ok_def)
  then show ?thesis
    using assms(1,2) av by (simp add: on_send_message_def Let_def)
qed

lemma room_listing_after_append:
  assumes msgs: "messages d' = messages d @ new"
    and room: "\<forall>m \<in> set new. m_room m = Some R \<and> m_receiver m = None"
    and asc: "sorted_wrt (<) (map m_id new)"
    and newest: "\<forall>m \<in> set new. \<forall>x \<in> set (messages d). m_id x < m_id m"
  shows "load_room_messages d' (Some R) limit
           = sql_limit limit (load_room_messages d (Some R) (- 1) @ new)"
proof -
  have "filter (\<lambda>r. sql_eq (m_room r) (Some R) \<and> m_receiver r = None) new = new"
    using room by (simp add: filter_id_conv)
  then have rows: "room_rows d' (Some R) = room_rows d (Some R) @ new"
    by (simp add: room_rows_def msgs)
  have "sorted (map m_id new)"
    using asc by (simp add: strict_sorted_iff)
  moreover have "\<forall>x \<in> set (room_rows d (Some R)). \<forall>y \<in> set new. m_id x \<le> m_id y"
    using newest set_room_rows [of d "Some R"] by (auto simp: less_imp_le)
  ultimately have "sort_key m_id (room_rows d (Some R) @ new)
                     = sort_key m_id (room_rows d (Some R)) @ new"
    by (rule sort_key_append_sorted)
  then show ?thesis
    by (simp add: load_room_messages_rows rows)
qed

lemma map_upt_shift: "map f [0..<Suc n] = f 0 # map (\<lambda>i. f (Suc i)) [0..<n]"
  by (simp add: upt_conv_Cons map_Suc_upt [symmetric] del: upt_Suc)

lemma send_room_calls_appends:
  assumes "\<forall>c \<in> set calls. truthy (data_get (d_username (snd c)))
                            \<and> data_get (d_room (snd c)) = Some R
                            \<and> send_data_ok (snd c) \<and> int64_ok (fst c)"
    and "R \<noteq> []"
    and "rowids_ok (db s)"
    and "messages_seq (db s) + int (length calls) \<le> max_rowid"
  shows "\<exists>new. messages (db (send_room_calls s sid calls)) = messages (db s) @ new
     \<and> send_room_errors s sid calls = replicate (length calls) None
     \<and> map m_id new = map (\<lambda>i. messages_seq (db s) + 1 + int i) [0..<length calls]
     \<and> map m_message new = map (\<lambda>c. data_get_or (d_message (snd c)) []) calls
     \<and> map m_sender new = map (\<lambda>c. data_get (d_username (snd c))) calls
     \<and> map m_timestamp new = map fst calls
     \<and> (\<forall>m \<in> set new. m_room m = Some R \<and> m_receiver m = None)"
  using assms
proof (induction calls arbitrary: s)
  case Nil
  then show ?case by simp
next
  case (Cons c calls)
  obtain now data where c: "c = (now, data)" by (cases c)
  let ?k = "messages_seq (db s) + 1"
  let ?row = "inserted_row ?k now (data_get (d_room data)) (data_get (d_username data))
                None (data_get_or (d_message data) []) (data_get (d_image data))
                (data_get (d_reply_to data))"
  let ?s1 = "fst (on_send_message s sid now data)"
  have ok: "truthy (data_get (d_username data))" "data_get (d_room data) = Some R"
    "send_data_ok data" "int64_ok now"
    using Cons.prems(1) by (simp_all add: c)
  then have room: "truthy (data_get (d_room data))"
    using Cons.prems(2) by (simp add: truthy_def)
  have below: "\<forall>x \<in> set (map m_id (messages (db s))). x \<le> messages_seq (db s)"
    using Cons.prems(3) by (auto simp: rowids_ok_def list_all_iff)
  have rowid: "next_rowid (messages_seq (db s)) (map m_id (messages (db s))) = Some ?k"
    using Cons.prems(3,4) below by (intro next_rowid_counter) (simp_all add: rowids_ok_def)
  obtain avatar evs where sent: "on_send_message s sid now data =
      (s\<lparr>db := (db s)\<lparr>messages := messages (db s) @ [?row], messages_seq := ?k\<rparr>\<rparr>, evs, None)"
    using on_send_message_eq [OF ok(1) room ok(3,4) rowid, of sid] by blast
  have step: "messages (db ?s1) = messages (db s) @ [?row]" "messages_seq (db ?s1) = ?k"
    "snd (snd (on_send_message s sid now data)) = None"
    by (simp_all add: sent)
  have row: "?row\<lparr>m_id := ?k\<rparr> = ?row"
    by (simp add: inserted_row_def)
  have ids1: "rowids_ok (db ?s1)"
    using rowids_ok_append(2) [OF Cons.prems(3) rowid, of ?row] unfolding row
    by (simp add: sent)
  have space1: "messages_seq (db ?s1) + int (length calls) \<le> max_rowid"
    using Cons.prems(4) by (simp add: step(2))
  have rest: "\<forall>c \<in> set calls. truthy (data_get (d_username (snd c)))
                                \<and> data_get (d_room (snd c)) = Some R
                                \<and> send_data_ok (snd c) \<and> int64_ok (fst c)"
    using Cons.prems(1) by simp
  from Cons.IH [OF rest Cons.prems(2) ids1 space1]
  obtain new1 where n1:
    "messages (db (send_room_calls ?s1 sid calls)) = messages (db ?s1) @ new1"
    "send_room_errors ?s1 sid calls = replicate (length calls) None"
    "map m_id new1 = map (\<lambda>i. messages_seq (db ?s1) + 1 + int i) [0..<length calls]"
    "map m_message new1 = map (\<lambda>c. data_get_or (d_message (snd c)) []) calls"
    "map m_sender new1 = map (\<lambda>c. data_get (d_username (snd c))) calls"
    "map m_timestamp new1 = map fst calls"
    "\<forall>m \<in> set new1. m_room m = Some R \<and> m_receiver m = None"
    by blast
  have a: "messages (db (send_room_calls s sid (c # calls))) = messages (db s) @ (?row # new1)"
    using n1(1) step(1) by (simp add: c)
  have e: "send_room_errors s sid (c # calls) = replicate (length (c # calls)) None"
    using n1(2) step(3) by (simp add: c)
  have i: "map m_id (?row # new1)
             = map (\<lambda>i. messages_seq (db s) + 1 + int i) [0..<length (c # calls)]"
    unfolding list.map n1(3) step(2) length_Cons map_upt_shift by simp
  have b: "map m_message (?row # new1) = map (\<lambda>c. data_get_or (d_message (snd c)) []) (c # calls)"
    "map m_sender (?row # new1) = map (\<lambda>c. data_get (d_username (snd c))) (c # calls)"
    "map m_timestamp (?row # new1) = map fst (c # calls)"
    using n1(4,5,6) by (simp_all add: c)
  have d: "\<forall>m \<in> set (?row # new1). m_room m = Some R \<and> m_receiver m = None"
    using n1(7) ok(2) by simp
  show ?case
    using a e i b d by blast
qed

lemma sorted_wrt_counter: "sorted_wrt (<) (map (\<lambda>i. (a::int) + 1 + int i) [0..<n])"
  by (simp add: sorted_wrt_map sorted_wrt_upt [unfolded sorted_wrt_iff_nth_less]
      sorted_wrt_iff_nth_less)



lemma lobby_db_rows: "room_rows (lobby_db n) (Some ''Lobby'') = messages (lobby_db n)"
  by (simp add: room_rows_def lobby_db_def lobby_row_def)

lemma lobby_db_next_rowid:
  "next_rowid (messages_seq (lobby_db 500)) (map m_id (messages (lobby_db 500))) = Some 501"
  using next_rowid_counter [of 500 "map m_id (messages (lobby_db 500))"]
  by (auto simp: lobby_db_def lobby_row_def max_rowid_def)


subsection \<open>Search\<close>

lemma pattern_compare_percent [simp]: "pattern_compare ''%'' s"
  by (induction s) auto

lemma ci_prefix_Nil [simp]: "ci_prefix q [] = (q = [])"
  by (cases q) auto

lemma pattern_compare_prefix:
  "CHR ''%'' \<notin> set q \<Longrightarrow> CHR ''_'' \<notin> set q
     \<Longrightarrow> pattern_compare (q @ ''%'') s = ci_prefix q s"
  by (induction q s rule: ci_prefix.induct) auto

lemma pattern_compare_anywhere:
  "(\<And>t. pattern_compare p t = ci_prefix q t)
     \<Longrightarrow> pattern_compare (CHR ''%'' # p) s = spec_contains_ci q s"
  by (induction s) auto

lemma pattern_compare_contains:
  assumes "CHR ''%'' \<notin> set q" "CHR ''_'' \<notin> set q"
  shows "pattern_compare (''%'' @ q @ ''%'') s = spec_contains_ci q s"
  using pattern_compare_anywhere [of "q @ ''%''" q s] pattern_compare_prefix [OF assms] by simp

lemma c_string_id: "CHR 0x00 \<notin> set s \<Longrightarrow> c_string s = s"
  by (simp add: c_string_def takeWhile_eq_all_conv) metis

lemma like_match_contains:
  assumes "CHR ''%'' \<notin> set q" "CHR ''_'' \<notin> set q" "CHR 0x00 \<notin> set q" "CHR 0x00 \<notin> set s"
  shows "like_match (''%'' @ q @ ''%'') s = spec_contains_ci q s"
proof -
  have "CHR 0x00 \<notin> set (''%'' @ q @ ''%'')"
    using assms(3) by simp
  then have pat: "c_string (''%'' @ q @ ''%'') = ''%'' @ q @ ''%''"
    by (rule c_string_id)
  have body: "c_string s = s"
    using assms(4) by (rule c_string_id)
  show ?thesis
    unfolding like_match_def pat body by (rule pattern_compare_contains [OF assms(1,2)])
qed

text \<open>
  The recursive \<open>spec_contains_ci\<close> is substring containment up to ASCII case.
\<close>

lemma ci_prefix_iff:
  "ci_prefix q s = (\<exists>mid suf. s = mid @ suf \<and> map ascii_lower mid = map ascii_lower q)"
proof (induction q s rule: ci_prefix.induct)
  case (1 s)
  then show ?case by simp
next
  case (2 a q)
  then show ?case by simp
next
  case (3 a q c cs)
  show ?case
  proof
    assume "ci_prefix (a # q) (c # cs)"
    then obtain mid suf where "cs = mid @ suf" "map ascii_lower mid = map ascii_lower q"
      and "ascii_lower a = ascii_lower c"
      using 3 by auto
    then have "c # cs = (c # mid) @ suf \<and> map ascii_lower (c # mid) = map ascii_lower (a # q)"
      by simp
    then show "\<exists>mid suf. c # cs = mid @ suf \<and> map ascii_lower mid = map ascii_lower (a # q)"
      by blast
  next
    assume "\<exists>mid suf. c # cs = mid @ suf \<and> map ascii_lower mid = map ascii_lower (a # q)"
    then obtain mid suf where m: "c # cs = mid @ suf" "map ascii_lower mid = map ascii_lower (a # q)"
      by blast
    then obtain m' where m': "mid = c # m'"
      by (cases mid) auto
    with m have "cs = m' @ suf" "map ascii_lower m' = map ascii_lower q" "ascii_lower a = ascii_lower c"
      by auto
    then show "ci_prefix (a # q) (c # cs)"
      using 3 by auto
  qed
qed

lemma spec_contains_ci_iff:
  "spec_contains_ci q s
     = (\<exists>pre mid suf. s = pre @ mid @ suf \<and> map ascii_lower mid = map ascii_lower q)"
proof (induction s)
  case Nil
  then show ?case by auto
next
  case (Cons c cs)
  note IH = Cons.IH
  show ?case
  proof
    assume "spec_contains_ci q (c # cs)"
    then consider "ci_prefix q (c # cs)" | "spec_contains_ci q cs" by auto
    then show "\<exists>pre mid suf. c # cs = pre @ mid @ suf \<and> map ascii_lower mid = map ascii_lower q"
    proof cases
      case 1
      then obtain mid suf where "c # cs = [] @ mid @ suf" "map ascii_lower mid = map ascii_lower q"
        by (auto simp: ci_prefix_iff)
      then show ?thesis by blast
    next
      case 2
      then obtain pre mid suf where "cs = pre @ mid @ suf" "map ascii_lower mid = map ascii_lower q"
        using IH by blast
      then have "c # cs = (c # pre) @ mid @ suf" by simp
      then show ?thesis using \<open>map ascii_lower mid = map ascii_lower q\<close> by blast
    qed
  next
    assume "\<exists>pre mid suf. c # cs = pre @ mid @ suf \<and> map ascii_lower mid = map ascii_lower q"
    then obtain pre mid suf where p: "c # cs = pre @ mid @ suf" "map ascii_lower mid = map ascii_lower q"
      by blast
    show "spec_contains_ci q (c # cs)"
    proof (cases pre)
      case Nil
      with p have "ci_prefix q (c # cs)"
        by (auto simp: ci_prefix_iff)
      then show ?thesis by simp
    next
      case (Cons a pre')
      with p have "cs = pre' @ mid @ suf" by simp
      with p(2) have "spec_contains_ci q cs"
        using IH by blast
      then show ?thesis by simp
    qed
  qed
qed


lemma utf8_length_pattern [simp]: "utf8_length (CHR ''%'' # s @ ''%'') = utf8_length s + 2"
  by (simp add: utf8_length_def)

lemma search_room_rows:
  assumes "text_ok room" and "utf8_length (py_str q) \<le> 49998"
  shows "search_room d room q
           = Inr (take 200 (sort_key (\<lambda>r. - m_id r) (like_rows d room q)))"
  using assms
  by (simp add: search_room_def like_rows_def sql_limit_def Let_def text_ok_def
      like_too_complex_def)

lemma search_room_too_complex:
  assumes "text_ok room" and "49998 < utf8_length (py_str q)"
    and "utf8_length (py_str q) \<le> 999999998"
    and "r \<in> set (messages d)" and "sql_eq (m_room r) room"
  shows "search_room d room q = Inl OperationalError"
proof -
  have "list_ex (\<lambda>r. sql_eq (m_room r) room) (messages d)"
    using assms(4,5) by (auto simp: list_ex_iff)
  then show ?thesis
    using assms(1,2,3)
    by (simp add: search_room_def Let_def text_ok_def like_too_complex_def)
qed

lemma sorted_neg_desc:
  "sorted_wrt (<) (map (\<lambda>r. - f r) xs) = sorted_wrt (>) (map (f :: 'a \<Rightarrow> int) xs)"
  by (simp add: sorted_wrt_map)

lemma messages_pk_like_rows:
  "messages_pk d \<Longrightarrow> distinct (map (\<lambda>r. - m_id r) (like_rows d room q))"
proof -
  assume "messages_pk d"
  then have "distinct (map m_id (like_rows d room q))"
    by (simp add: messages_pk_def like_rows_def distinct_map_filter)
  then have "distinct (map uminus (map m_id (like_rows d room q)))"
    by (simp add: distinct_map inj_on_def)
  then show ?thesis
    by (simp add: comp_def)
qed

text \<open>
  Claim C9, as the code has it.  For a room that binds and a query whose pattern
  \<^verbatim>\<open>%q%\<close> has at most 50000 bytes, \<^verbatim>\<open>search_room\<close> does not raise.  Its result is
  made of rows of the given room (so never a direct message, whose room is NULL) whose
  body matches the SQL pattern \<^verbatim>\<open>%q%\<close>, most recent first: all of them when they are at
  most 200, and else the 200 with the highest ids.  The query is put into the pattern as
  it is, so \<^verbatim>\<open>%\<close> and \<^verbatim>\<open>_\<close> in it are wildcards, and pattern and body are compared
  up to their first NUL; for a query without these three characters, on bodies without
  NUL, the result is the specification's search: the rows of the room whose body contains
  the query up to ASCII case.
\<close>

theorem search_room_like:
  assumes pk: "messages_pk d" and room: "text_ok room"
    and short: "utf8_length (py_str q) \<le> 49998"
  defines "rows \<equiv> like_rows d room q"
  shows "\<exists>res. search_room d room q = Inr res
       \<and> set res \<subseteq> set rows
       \<and> length res = min 200 (length rows)
       \<and> sorted_wrt (>) (map m_id res)
       \<and> (\<forall>r \<in> set res. \<forall>x \<in> set rows - set res. m_id x < m_id r)
       \<and> (\<forall>r. (r \<in> set rows) =
                (r \<in> set (messages d) \<and> m_room r = room \<and> m_room r \<noteq> None
                 \<and> sql_like (m_message r) (''%'' @ py_str q @ ''%'')))
       \<and> (\<forall>R s. room = Some R \<and> q = Some s
                 \<and> CHR ''%'' \<notin> set s \<and> CHR ''_'' \<notin> set s \<and> CHR 0x00 \<notin> set s
                 \<and> (\<forall>r \<in> set (messages d). \<forall>b. m_message r = Some b \<longrightarrow> CHR 0x00 \<notin> set b)
               \<longrightarrow> res = spec_search d R s)"
proof -
  let ?L = "sort_key (\<lambda>r. - m_id r) rows"
  let ?res = "take 200 ?L"
  have res: "search_room d room q = Inr ?res"
    unfolding rows_def by (rule search_room_rows [OF room short])
  have sub: "set ?res \<subseteq> set rows"
    using set_take_subset [of 200 ?L] by simp
  have len: "length ?res = min 200 (length rows)"
    by simp
  have dist: "distinct (map (\<lambda>r. - m_id r) rows)"
    unfolding rows_def by (rule messages_pk_like_rows [OF pk])
  have strict: "sorted_wrt (<) (map (\<lambda>r. - m_id r) ?L)"
    using dist by (rule strict_sorted_sort_key)
  have "sorted_wrt (<) (map (\<lambda>r. - m_id r) ?res)"
    using strict by (metis sorted_wrt_append append_take_drop_id map_append)
  then have desc: "sorted_wrt (>) (map m_id ?res)"
    by (simp only: sorted_neg_desc)
  have distL: "distinct ?L"
    using dist by (auto simp: distinct_map)
  have split: "set rows - set ?res = set (drop 200 ?L)"
  proof -
    have "set ?res \<inter> set (drop 200 ?L) = {}"
      using distL by (metis append_take_drop_id distinct_append)
    moreover have "set ?res \<union> set (drop 200 ?L) = set rows"
      by (metis append_take_drop_id set_append set_sort)
    ultimately show ?thesis by auto
  qed
  have top: "\<forall>r \<in> set ?res. \<forall>x \<in> set rows - set ?res. m_id x < m_id r"
    unfolding split using sorted_wrt_take_drop [OF strict] by fastforce
  have mem: "\<forall>r. (r \<in> set rows) =
                (r \<in> set (messages d) \<and> m_room r = room \<and> m_room r \<noteq> None
                 \<and> sql_like (m_message r) (''%'' @ py_str q @ ''%''))"
    by (auto simp: rows_def like_rows_def sql_eq_def split: option.splits)
  have spec: "?res = spec_search d R s"
    if "room = Some R \<and> q = Some s
        \<and> CHR ''%'' \<notin> set s \<and> CHR ''_'' \<notin> set s \<and> CHR 0x00 \<notin> set s
        \<and> (\<forall>r \<in> set (messages d). \<forall>b. m_message r = Some b \<longrightarrow> CHR 0x00 \<notin> set b)" for R s
  proof -
    have "sql_like (m_message r) (''%'' @ s @ ''%'')
            = (case m_message r of None \<Rightarrow> False | Some t \<Rightarrow> spec_contains_ci s t)"
      if "r \<in> set (messages d)" for r
      using that \<open>room = Some R \<and> _\<close> like_match_contains [of s]
      by (auto simp: sql_like_def split: option.splits)
    then have "rows = filter (\<lambda>r. m_room r = Some R \<and>
                        (case m_message r of None \<Rightarrow> False | Some b \<Rightarrow> spec_contains_ci s b))
                 (messages d)"
      using that unfolding rows_def like_rows_def
      by (intro filter_cong) (auto simp: py_str_def)
    then show ?thesis
      by (simp add: spec_search_def)
  qed
  show ?thesis
    using res sub len desc top mem spec by blast
qed

theorem search_room_like_witness:
  "messages_pk sample_db \<and> text_ok (Some ''Lobby'')
   \<and> utf8_length (py_str (Some ''hELL'')) \<le> 49998
   \<and> search_room sample_db (Some ''Lobby'') (Some ''hELL'') = Inr [hello_row]
   \<and> like_rows sample_db (Some ''Lobby'') (Some ''hELL'') = [hello_row]
   \<and> spec_search sample_db ''Lobby'' ''hELL'' = [hello_row]
   \<and> search_room sample_db (Some ''Lobby'') (Some ''psst'') = Inr []
   \<and> m_room hello_row \<noteq> None"
proof -
  have pk: "messages_pk sample_db"
    using sample_state_pk by (simp add: sample_state_def)
  have room: "text_ok (Some ''Lobby'')"
    by (simp add: text_ok_short)
  have short: "utf8_length (py_str (Some ''hELL'')) \<le> 49998"
    "utf8_length (py_str (Some ''psst'')) \<le> 49998"
    using utf8_length_le [of "''hELL''"] utf8_length_le [of "''psst''"] by (simp_all add: py_str_def)
  have plain: "CHR ''%'' \<notin> set ''hELL'' \<and> CHR ''_'' \<notin> set ''hELL'' \<and> CHR 0x00 \<notin> set ''hELL''"
    by simp
  have bodies: "\<forall>r \<in> set (messages sample_db). \<forall>b. m_message r = Some b \<longrightarrow> CHR 0x00 \<notin> set b"
    by (simp add: sample_db_def hello_row_def psst_row_def)
  have rows: "like_rows sample_db (Some ''Lobby'') (Some ''hELL'') = [hello_row]"
    by code_simp
  have none: "like_rows sample_db (Some ''Lobby'') (Some ''psst'') = []"
    by code_simp
  have spec: "spec_search sample_db ''Lobby'' ''hELL'' = [hello_row]"
    by code_simp
  have found: "search_room sample_db (Some ''Lobby'') (Some ''hELL'') = Inr [hello_row]"
    by (simp add: search_room_rows [OF room short(1)] rows)
  have dm: "search_room sample_db (Some ''Lobby'') (Some ''psst'') = Inr []"
    by (simp add: search_room_rows [OF room short(2)] none)
  note th = search_room_like [OF pk room short(1)]
  show ?thesis
    using th pk room short(1) plain bodies rows spec found dm by (simp add: hello_row_def)
qed

text \<open>
  The query \<^verbatim>\<open>_\<close> finds the message \<^verbatim>\<open>Hello\<close>, which contains no underscore, and so
  does the query that is one NUL character.  The query \<^verbatim>\<open>b\<close> does not find a body that
  has its \<^verbatim>\<open>b\<close> after a NUL.  A query of 49999 letters raises.
\<close>

theorem search_wildcard_counterexample:
  "search_room sample_db (Some ''Lobby'') (Some ''_'') = Inr [hello_row]
   \<and> m_message hello_row = Some ''Hello''
   \<and> \<not> spec_contains_ci ''_'' ''Hello''
   \<and> spec_search sample_db ''Lobby'' ''_'' = []
   \<and> search_room sample_db (Some ''Lobby'') (Some [CHR 0x00]) = Inr [hello_row]
   \<and> spec_search sample_db ''Lobby'' [CHR 0x00] = []
   \<and> search_room (sample_db\<lparr>messages := [hello_row\<lparr>m_message :=
          Some [CHR ''a'', CHR 0x00, CHR ''b'']\<rparr>]\<rparr>) (Some ''Lobby'') (Some ''b'') = Inr []
   \<and> spec_search (sample_db\<lparr>messages := [hello_row\<lparr>m_message :=
          Some [CHR ''a'', CHR 0x00, CHR ''b'']\<rparr>]\<rparr>) ''Lobby'' ''b''
       = [hello_row\<lparr>m_message := Some [CHR ''a'', CHR 0x00, CHR ''b'']\<rparr>]
   \<and> search_room sample_db (Some ''Lobby'') (Some (replicate 49999 (CHR ''a'')))
       = Inl OperationalError"
proof -
  let ?nul = "sample_db\<lparr>messages := [hello_row\<lparr>m_message :=
          Some [CHR ''a'', CHR 0x00, CHR ''b'']\<rparr>]\<rparr>"
  have room: "text_ok (Some ''Lobby'')"
    by (simp add: text_ok_short)
  have short: "utf8_length (py_str (Some ''_'')) \<le> 49998"
    "utf8_length (py_str (Some [CHR 0x00])) \<le> 49998"
    "utf8_length (py_str (Some ''b'')) \<le> 49998"
    using utf8_length_le [of "''_''"] utf8_length_le [of "[CHR 0x00]"] utf8_length_le [of "''b''"]
    by (simp_all add: py_str_def)
  have rows: "like_rows sample_db (Some ''Lobby'') (Some ''_'') = [hello_row]"
    "like_rows sample_db (Some ''Lobby'') (Some [CHR 0x00]) = [hello_row]"
    "like_rows ?nul (Some ''Lobby'') (Some ''b'') = []"
    by code_simp+
  have spec: "m_message hello_row = Some ''Hello''" "\<not> spec_contains_ci ''_'' ''Hello''"
    "spec_search sample_db ''Lobby'' ''_'' = []"
    "spec_search sample_db ''Lobby'' [CHR 0x00] = []"
    "spec_search ?nul ''Lobby'' ''b''
       = [hello_row\<lparr>m_message := Some [CHR ''a'', CHR 0x00, CHR ''b'']\<rparr>]"
    by code_simp+
  have long: "utf8_length (py_str (Some (replicate 49999 (CHR ''a'')))) = 49999"
    by (simp add: py_str_def utf8_length_def)
  have raised: "search_room sample_db (Some ''Lobby'') (Some (replicate 49999 (CHR ''a'')))
       = Inl OperationalError"
    by (rule search_room_too_complex [OF room, where r = hello_row])
       (simp_all add: long sample_db_def hello_row_def)
  show ?thesis
    using spec raised
    by (simp add: search_room_rows [OF room short(1)] search_room_rows [OF room short(2)]
        search_room_rows [OF room short(3)] rows)
qed

subsection \<open>Exactly one of room and receiver\<close>

lemma store_exclusive_persist:
  assumes "store_exclusive d" and "(room = None) \<noteq> (receiver = None)"
    and "persist_message d ts room sender receiver body img reply_to = Inr (d', r)"
  shows "store_exclusive d'"
  using persist_message_Inr [OF assms(3)] assms(1,2)
  by (auto simp: store_exclusive_def exclusive_def)

lemma store_exclusive_edit:
  "store_exclusive d \<Longrightarrow> edit_message d mid username new_text = Inr (d', r)
     \<Longrightarrow> store_exclusive d'"
  by (auto simp: edit_message_def store_exclusive_def exclusive_def list_all_iff Let_def
      split: option.splits if_splits)

lemma store_exclusive_delete:
  "store_exclusive d \<Longrightarrow> delete_message d mid username = Inr (d', r) \<Longrightarrow> store_exclusive d'"
  by (auto simp: delete_message_def store_exclusive_def list_all_iff
      split: option.splits if_splits)

lemma store_exclusive_toggle:
  "store_exclusive d \<Longrightarrow> toggle_reaction d mid username emoji = Inr (d', r)
     \<Longrightarrow> store_exclusive d'"
  using toggle_reaction_Inr [of d mid username emoji d' r] by (simp add: store_exclusive_def)

lemma store_exclusive_pin:
  "store_exclusive d \<Longrightarrow> pin_message d mid room = Inr (d', r) \<Longrightarrow> store_exclusive d'"
  using pin_message_Inr [of d mid room d' r] by (simp add: store_exclusive_def)

lemma on_send_message_exclusive:
  assumes ex: "store_exclusive (db s)"
  shows "store_exclusive (db (fst (on_send_message s sid now data)))"
proof (cases "truthy (data_get (d_username data)) \<and> truthy (data_get (d_room data))")
  case True
  then have room: "(data_get (d_room data) = None) \<noteq> (None = (None :: string option))"
    by (auto simp: truthy_def split: option.splits)
  show ?thesis
  proof (cases "avatar_of (db s) (data_get (d_username data))")
    case (Inl e)
    then show ?thesis
      using ex True by (simp add: on_send_message_def Let_def)
  next
    case (Inr avatar)
    show ?thesis
    proof (cases "persist_message (db s) now (data_get (d_room data))
                    (data_get (d_username data)) None (data_get_or (d_message data) [])
                    (data_get (d_image data)) (data_get (d_reply_to data))")
      case (Inl e)
      then show ?thesis
        using ex True Inr by (simp add: on_send_message_def Let_def)
    next
      case persisted: (Inr p)
      obtain d' r where p: "p = (d', r)" by (cases p)
      have "store_exclusive d'"
        using store_exclusive_persist [OF ex room persisted [unfolded p]] .
      then show ?thesis
        using True Inr persisted p by (cases r) (simp_all add: on_send_message_def Let_def)
    qed
  qed
next
  case False
  then show ?thesis
    using ex by (auto simp: on_send_message_def Let_def)
qed

lemma on_send_dm_exclusive:
  assumes ex: "store_exclusive (db s)"
  shows "store_exclusive (db (fst (on_send_dm s sid now data)))"
proof (cases "truthy (data_get (d_username data)) \<and> truthy (data_get (d_to data))")
  case True
  then have room: "((None :: string option) = None) \<noteq> (data_get (d_to data) = None)"
    by (auto simp: truthy_def split: option.splits)
  show ?thesis
  proof (cases "avatar_of (db s) (data_get (d_username data))")
    case (Inl e)
    then show ?thesis
      using ex True by (simp add: on_send_dm_def Let_def)
  next
    case (Inr avatar)
    show ?thesis
    proof (cases "persist_message (db s) now None (data_get (d_username data))
                    (data_get (d_to data)) (data_get_or (d_message data) [])
                    (data_get (d_image data)) (data_get (d_reply_to data))")
      case (Inl e)
      then show ?thesis
        using ex True Inr by (simp add: on_send_dm_def Let_def)
    next
      case persisted: (Inr p)
      obtain d' r where p: "p = (d', r)" by (cases p)
      have "store_exclusive d'"
        using store_exclusive_persist [OF ex room persisted [unfolded p]] .
      then show ?thesis
        using True Inr persisted p by (cases r) (simp_all add: on_send_dm_def Let_def)
    qed
  qed
next
  case False
  then show ?thesis
    using ex by (auto simp: on_send_dm_def Let_def)
qed

lemma on_join_room_exclusive:
  assumes ex: "store_exclusive (db s)" and room: "data_get_or (d_room data) ''Lobby'' \<noteq> None"
  shows "store_exclusive (db (fst (on_join_room s sid now data)))"
proof (cases "truthy (data_get (d_username data))")
  case False
  then show ?thesis
    using ex by (auto simp: on_join_room_def Let_def truthy_def split: option.splits)
next
  case True
  then obtain u where u: "data_get (d_username data) = Some u" "u \<noteq> []"
    by (auto simp: truthy_def split: option.splits)
  let ?room = "data_get_or (d_room data) ''Lobby''"
  let ?s1 = "s\<lparr>user_to_sid := AList.update u sid (user_to_sid s),
               sid_to_user := AList.update sid u (sid_to_user s)\<rparr>"
  show ?thesis
  proof (cases "bind_params [PText ?room, PInt (Some 500)]")
    case (Some e)
    then show ?thesis
      using ex u by (simp add: on_join_room_def Let_def del: bind_params_PText bind_params_PInt)
  next
    case None
    show ?thesis
    proof (cases "persist_message (db s) now ?room (Some ''System'') None
                    (Some (u @ '' joined '' @ py_str ?room)) None None")
      case (Inl e)
      then show ?thesis
        using ex u None
        by (simp add: on_join_room_def Let_def del: bind_params_PText bind_params_PInt)
    next
      case persisted: (Inr p)
      obtain d' r where p: "p = (d', r)" by (cases p)
      have "(?room = None) \<noteq> (None = (None :: string option))"
        using room by simp
      then have "store_exclusive d'"
        using store_exclusive_persist [OF ex _ persisted [unfolded p]] by blast
      then show ?thesis
        using u None persisted p
        by (simp add: on_join_room_def Let_def split: sum.splits
            del: bind_params_PText bind_params_PInt)
    qed
  qed
qed

lemma other_handlers_exclusive:
  assumes "store_exclusive (db s)"
  shows "store_exclusive (db (fst (on_edit_message s sid data)))"
    and "store_exclusive (db (fst (on_delete_message s sid data)))"
    and "store_exclusive (db (fst (on_react s sid data)))"
    and "store_exclusive (db (fst (on_pin_message s sid data)))"
    and "store_exclusive (db (fst (on_disconnect s sid)))"
proof -
  show "store_exclusive (db (fst (on_edit_message s sid data)))"
    using assms store_exclusive_edit [of "db s"]
    by (auto simp: on_edit_message_def Let_def split: sum.splits option.splits)
  show "store_exclusive (db (fst (on_delete_message s sid data)))"
    using assms store_exclusive_delete [of "db s"]
    by (auto simp: on_delete_message_def Let_def split: sum.splits)
  show "store_exclusive (db (fst (on_react s sid data)))"
    using assms store_exclusive_toggle [of "db s"]
    by (auto simp: on_react_def Let_def split: sum.splits)
  show "store_exclusive (db (fst (on_pin_message s sid data)))"
    using assms store_exclusive_pin [of "db s"]
    by (auto simp: on_pin_message_def Let_def split: sum.splits option.splits)
  show "store_exclusive (db (fst (on_disconnect s sid)))"
    using assms
    by (auto simp: on_disconnect_def Let_def split: sum.splits option.splits)
qed

text \<open>
  Claim C8.  Every row that a handler inserts has exactly one of \<^verbatim>\<open>room\<close> and
  \<^verbatim>\<open>receiver\<close> set, and every operation keeps this for the stored rows.  The lemmas
  above show it for the room send, the direct message, edit, delete, react, pin and
  disconnect, whether they raise or not, and for a join whose room is not null.
  \<^verbatim>\<open>on_join_room\<close>, unlike \<^verbatim>\<open>on_send_message\<close>, does not check its room: for a
  \<^verbatim>\<open>join_room\<close> event with \<^verbatim>\<open>"room": null\<close> the default \<^verbatim>\<open>Lobby\<close> does not apply,
  and the system message is stored with neither a room nor a receiver.
\<close>

theorem join_null_room_row:
  "store_exclusive (db init_state)
   \<and> messages (db (fst (on_join_room init_state ''c1'' 100 null_room_join)))
       = [\<lparr>m_id = 1, m_room = None, m_sender = Some ''System'', m_receiver = None,
           m_message = Some ''alice joined None'', m_image = None, m_reply_to = None,
           m_timestamp = 100\<rparr>]
   \<and> \<not> store_exclusive (db (fst (on_join_room init_state ''c1'' 100 null_room_join)))"
proof -
  have joined: "persist_message init_db 100 None (Some ''System'') None
                  (Some ''alice joined None'') None None
      = Inr (init_db\<lparr>messages := [inserted_row 1 100 None (Some ''System'') None
                                     (Some ''alice joined None'') None None],
                     messages_seq := 1\<rparr>,
             Some (inserted_row 1 100 None (Some ''System'') None
                     (Some ''alice joined None'') None None))"
    using persist_message_eq [of None "Some ''System''" None "Some ''alice joined None''" None
        None 100 init_db 1]
    by (simp add: text_ok_short int64_ok_def init_db_def)
  have msgs: "messages (db (fst (on_join_room init_state ''c1'' 100 null_room_join)))
       = [inserted_row 1 100 None (Some ''System'') None (Some ''alice joined None'') None None]"
    by (simp add: on_join_room_def init_state_def null_room_join_def no_data_def data_get_def
        data_get_or_def py_str_def Let_def joined split: sum.splits)
  have before: "store_exclusive (db init_state)"
    by (simp add: init_state_def init_db_def store_exclusive_def)
  show ?thesis
    using before by (simp add: msgs inserted_row_def store_exclusive_def exclusive_def)
qed


end
